theory Spec2Isabelle
  imports Main "HOL-Library.Word"
begin

unbundle bit_operations_syntax

section \<open>The UHID keyboard example: data model\<close>

text \<open>
  The program (uhid-example.c) emulates a HID keyboard over the kernel's uhid character
  device.  Bytes are \<open>8 word\<close>.  The C type \<open>char\<close> is compared in the source only with
  ASCII constants below 128 and for equality, so reading a byte as unsigned decides every
  test of the source the same way a signed \<open>char\<close> does (lemma \<open>signed_range_test\<close>).
\<close>

type_synonym byte = "8 word"

subsection \<open>Events exchanged with the uhid device\<close>

text \<open>
  \<open>struct uhid_event\<close> is a tagged union: the field \<open>type\<close> and the payload union \<open>u\<close>.
  Every event the program writes is cleared with \<open>memset\<close> first, so the fields a function
  does not assign are zero.  The payload of an input event holds a 4096-byte buffer;
  \<open>in_data\<close> lists the leading bytes that \<open>send_event\<close> fills in (indices 0 to 7), the
  rest of the buffer stays zero.  The buffer of an output event is read by index, so it is
  a total function on indices.
\<close>

record create_req =
  name :: string
  phys :: string
  uniq :: string
  rd_data :: "byte list"
  rd_size :: "16 word"
  bus :: "16 word"
  vendor :: "32 word"
  product :: "32 word"
  version :: "32 word"
  country :: "32 word"

record input_req =
  in_data :: "byte list"
  in_size :: "16 word"

record output_req =
  out_data :: "nat \<Rightarrow> byte"
  out_size :: "16 word"
  out_rtype :: byte

datatype uhid_event =
    UHID_CREATE create_req
  | UHID_DESTROY
  | UHID_START
  | UHID_STOP
  | UHID_OPEN
  | UHID_CLOSE
  | UHID_OUTPUT output_req
  | UHID_OUTPUT_EV
  | UHID_INPUT input_req
  | UHID_unknown "32 word"

text \<open>
  Constants of the kernel headers \<open>linux/uhid.h\<close>, \<open>linux/input.h\<close> and of \<open>errno.h\<close>,
  which the program includes; they are named here with the values of those headers.  The
  proofs below use of the numbers only that \<open>EFAULT\<close> is not 0.
\<close>

definition UHID_OUTPUT_REPORT :: byte where
  "UHID_OUTPUT_REPORT = 1"

definition BUS_USB :: "16 word" where
  "BUS_USB = 0x03"

definition EFAULT :: int where
  "EFAULT = 14"

datatype exit_status = EXIT_SUCCESS | EXIT_FAILURE

subsection \<open>The report descriptor\<close>

definition rdesc :: "byte list" where
  "rdesc =
    [0x05, 0x01,
     0x09, 0x06,
     0xa1, 0x01,
     0x05, 0x07,
     0x19, 0xe0,
     0x29, 0xe7,
     0x15, 0x00,
     0x25, 0x01,
     0x75, 0x01,
     0x95, 0x08,
     0x81, 0x02,
     0x95, 0x01,
     0x75, 0x08,
     0x81, 0x01,
     0x95, 0x06,
     0x75, 0x08,
     0x15, 0x00,
     0x25, 0x65,
     0x05, 0x07,
     0x19, 0x00,
     0x29, 0x65,
     0x81, 0x00,
     0xc0]"

subsection \<open>The program state\<close>

text \<open>
  The global variables of the source, and \<open>written\<close>: the events handed to \<open>write\<close> on the
  uhid file descriptor so far, oldest first.  The counters \<open>num_keys_pressed\<close> and
  \<open>escape_len\<close> are C \<open>int\<close>s that the program only increments from 0, resets to 0, or
  decrements when positive, so they are natural numbers.  \<open>key_codes\<close> is an array of 6
  bytes and \<open>escape_buf\<close> an array of 8.
\<close>

record kbd_state =
  modifier_keys :: byte
  key_codes :: "byte list"
  num_keys_pressed :: nat
  escape_buf :: "byte list"
  escape_len :: nat
  written :: "uhid_event list"

definition init_state :: kbd_state where
  "init_state =
    \<lparr>modifier_keys = 0, key_codes = [0, 0, 0, 0, 0, 0], num_keys_pressed = 0,
     escape_buf = [0, 0, 0, 0, 0, 0, 0, 0], escape_len = 0, written = []\<rparr>"

section \<open>The device protocol gateway\<close>

text \<open>
  \<open>uhid_write\<close>: the event is handed to \<open>write\<close>; the result of the system call decides
  the return value.  \<open>WriteFailed e\<close> is a negative result with \<open>errno = e\<close>,
  \<open>WriteShort\<close> a transfer of another size than the record, \<open>WriteFull\<close> a complete one.
\<close>

datatype write_result = WriteFailed int | WriteShort | WriteFull

definition uhid_write :: "write_result \<Rightarrow> uhid_event \<Rightarrow> kbd_state \<Rightarrow> int \<times> kbd_state" where
  "uhid_write r ev s =
    (let s' = s\<lparr>written := written s @ [ev]\<rparr>
     in case r of
          WriteFailed e \<Rightarrow> (- e, s')
        | WriteShort \<Rightarrow> (- EFAULT, s')
        | WriteFull \<Rightarrow> (0, s'))"

definition create_event :: uhid_event where
  "create_event =
    UHID_CREATE \<lparr>name = ''test-uhid-device'', phys = [], uniq = [],
      rd_data = rdesc, rd_size = of_nat (length rdesc), bus = BUS_USB,
      vendor = 0x15d9, product = 0x0a37, version = 0, country = 0\<rparr>"

definition create :: "write_result \<Rightarrow> kbd_state \<Rightarrow> int \<times> kbd_state" where
  "create r s = uhid_write r create_event s"

text \<open>\<open>destroy\<close> ignores what \<open>uhid_write\<close> returns.\<close>

definition destroy :: "write_result \<Rightarrow> kbd_state \<Rightarrow> kbd_state" where
  "destroy r s = snd (uhid_write r UHID_DESTROY s)"

text \<open>
  \<open>handle_output\<close> returns nothing in C; its effect is the diagnostic line with the LED
  flags.  The model returns the flags byte it prints, or \<open>None\<close> when it prints nothing.
\<close>

definition handle_output :: "output_req \<Rightarrow> byte option" where
  "handle_output req =
    (if out_rtype req \<noteq> UHID_OUTPUT_REPORT then None
     else if out_size req \<noteq> 2 then None
     else if out_data req 0 \<noteq> 0x2 then None
     else Some (out_data req 1))"

text \<open>
  What \<open>read\<close> on the uhid descriptor gives: 0 bytes, a failure with \<open>errno\<close>, a number
  of bytes that is not the record size, or one whole event.
\<close>

datatype uhid_read = ReadHup | ReadFailed int | ReadWrongSize | ReadEvent uhid_event

text \<open>\<open>event\<close> returns its status and the LED flags it printed, if any.\<close>

definition event :: "uhid_read \<Rightarrow> int \<times> byte option" where
  "event r =
    (case r of
       ReadHup \<Rightarrow> (- EFAULT, None)
     | ReadFailed e \<Rightarrow> (- e, None)
     | ReadWrongSize \<Rightarrow> (- EFAULT, None)
     | ReadEvent ev \<Rightarrow>
         (case ev of
            UHID_OUTPUT req \<Rightarrow> (0, handle_output req)
          | _ \<Rightarrow> (0, None)))"

section \<open>The key-state tracker and the report codec\<close>

text \<open>
  \<open>send_event\<close> builds the 8-byte report from the tracker and writes it.  No caller looks
  at its return value, so the model keeps only the write attempt.
\<close>

definition send_event :: "kbd_state \<Rightarrow> kbd_state" where
  "send_event s =
    (let keys =
       (if num_keys_pressed s > 0 then
          (let copy_len = (if num_keys_pressed s > 6 then 6 else num_keys_pressed s)
           in take copy_len (key_codes s) @ replicate (6 - copy_len) 0)
        else replicate 6 0);
       ev = UHID_INPUT \<lparr>in_data = modifier_keys s # 0 # keys, in_size = 8\<rparr>
     in s\<lparr>written := written s @ [ev]\<rparr>)"

text \<open>The search loop of \<open>add_key\<close>: is the code in one of the slots \<open>i..<n\<close>?\<close>

fun key_present :: "byte list \<Rightarrow> nat \<Rightarrow> nat \<Rightarrow> byte \<Rightarrow> bool" where
  "key_present ks i 0 c = False"
| "key_present ks i (Suc k) c = (if ks ! i = c then True else key_present ks (Suc i) k c)"

definition add_key :: "byte \<Rightarrow> kbd_state \<Rightarrow> kbd_state" where
  "add_key hid_code s =
    (if num_keys_pressed s \<ge> 6 then s
     else if key_present (key_codes s) 0 (num_keys_pressed s) hid_code then s
     else s\<lparr>key_codes := (key_codes s)[num_keys_pressed s := hid_code],
            num_keys_pressed := num_keys_pressed s + 1\<rparr>)"

text \<open>
  The inner loop of \<open>remove_key\<close>: for \<open>j\<close> from \<open>i\<close> while \<open>j < n - 1\<close>, slot \<open>j\<close> takes
  the value of slot \<open>j + 1\<close>; the first argument counts the iterations left.
\<close>

fun shift_left :: "nat \<Rightarrow> nat \<Rightarrow> byte list \<Rightarrow> byte list" where
  "shift_left 0 j ks = ks"
| "shift_left (Suc k) j ks = shift_left k (Suc j) (ks[j := ks ! Suc j])"

text \<open>The outer loop of \<open>remove_key\<close>, from index \<open>i\<close> with \<open>k\<close> iterations left.\<close>

fun remove_from :: "nat \<Rightarrow> nat \<Rightarrow> byte \<Rightarrow> kbd_state \<Rightarrow> kbd_state" where
  "remove_from 0 i c s = s"
| "remove_from (Suc k) i c s =
    (if key_codes s ! i = c then
       (let ks = shift_left (num_keys_pressed s - 1 - i) i (key_codes s);
            n = num_keys_pressed s - 1
        in s\<lparr>key_codes := ks[n := 0], num_keys_pressed := n\<rparr>)
     else remove_from k (Suc i) c s)"

definition remove_key :: "byte \<Rightarrow> kbd_state \<Rightarrow> kbd_state" where
  "remove_key hid_code s = remove_from (num_keys_pressed s) 0 hid_code s"

definition clear_keys :: "kbd_state \<Rightarrow> kbd_state" where
  "clear_keys s = s\<lparr>key_codes := replicate 6 0, num_keys_pressed := 0, modifier_keys := 0\<rparr>"

section \<open>The input translator\<close>

definition ascii_to_hid :: "byte \<Rightarrow> byte" where
  "ascii_to_hid c =
    (if c \<ge> 0x61 \<and> c \<le> 0x7a then 0x04 + (c - 0x61)
     else if c \<ge> 0x41 \<and> c \<le> 0x5a then 0x04 + (c - 0x41)
     else if c \<ge> 0x31 \<and> c \<le> 0x39 then 0x1e + (c - 0x31)
     else if c = 0x30 then 0x27
     else if c = 0x20 then 0x2c
     else if c = 0x0a \<or> c = 0x0d then 0x28
     else if c = 0x08 then 0x2a
     else if c = 0x09 then 0x2b
     else if c = 27 then 0x29
     else if c = 0x21 then 0x1e
     else if c = 0x40 then 0x1f
     else if c = 0x23 then 0x20
     else if c = 0x24 then 0x21
     else if c = 0x25 then 0x22
     else if c = 0x5e then 0x23
     else if c = 0x26 then 0x24
     else if c = 0x2a then 0x25
     else if c = 0x28 then 0x26
     else if c = 0x29 then 0x27
     else if c = 0x2d then 0x2d
     else if c = 0x3d then 0x2e
     else if c = 0x5b then 0x2f
     else if c = 0x5d then 0x30
     else if c = 0x5c then 0x31
     else if c = 0x3b then 0x33
     else if c = 0x27 then 0x34
     else if c = 0x60 then 0x35
     else if c = 0x2c then 0x36
     else if c = 0x2e then 0x37
     else if c = 0x2f then 0x38
     else 0)"

text \<open>
  \<open>process_escape_sequence\<close> returns the usage code and the state; the only assignment is
  \<open>escape_len = 0\<close> on the path that returns a nonzero code.
\<close>

definition process_escape_sequence :: "kbd_state \<Rightarrow> byte \<times> kbd_state" where
  "process_escape_sequence s =
    (if escape_len s \<ge> 3 \<and> escape_buf s ! 0 = 27 \<and> escape_buf s ! 1 = 0x5b then
       (let x = escape_buf s ! 2;
            hid_code = (if x = 0x41 then 0x52
                        else if x = 0x42 then 0x51
                        else if x = 0x43 then 0x4f
                        else if x = 0x44 then 0x50
                        else 0)
        in if hid_code \<noteq> 0 then (hid_code, s\<lparr>escape_len := 0\<rparr>) else (0, s))
     else (0, s))"

definition add_to_escape_buf :: "byte \<Rightarrow> kbd_state \<Rightarrow> kbd_state" where
  "add_to_escape_buf c s =
    (if escape_len s < 8 - 1 then
       s\<lparr>escape_buf := (escape_buf s)[escape_len s := c], escape_len := escape_len s + 1\<rparr>
     else s\<lparr>escape_len := 0\<rparr>)"

text \<open>
  The tail of the loop body of \<open>keyboard\<close>, reached with a usage code for the byte \<open>c\<close>:
  nothing happens for code 0; otherwise shift is set for an upper-case letter that is
  not an arrow code, the key is pressed and reported, released, shift cleared, and
  reported again.
\<close>

definition needs_shift :: "byte \<Rightarrow> byte \<Rightarrow> bool" where
  "needs_shift c hid_code =
    (c \<ge> 0x41 \<and> c \<le> 0x5a \<and>
     \<not> (hid_code = 0x52 \<or> hid_code = 0x51 \<or> hid_code = 0x4f \<or> hid_code = 0x50))"

definition press_release :: "byte \<Rightarrow> byte \<Rightarrow> kbd_state \<Rightarrow> kbd_state" where
  "press_release c hid_code s =
    (if hid_code = 0 then s
     else
       (let s1 = (if needs_shift c hid_code
                  then s\<lparr>modifier_keys := modifier_keys s OR 0x02\<rparr> else s);
            s2 = send_event (add_key hid_code s1);
            s3 = remove_key hid_code s2;
            s4 = (if needs_shift c hid_code
                  then s3\<lparr>modifier_keys := modifier_keys s3 AND NOT 0x02\<rparr> else s3)
        in send_event s4))"

text \<open>
  One iteration of the loop of \<open>keyboard\<close> on the byte \<open>c = buf[i]\<close>; \<open>rest\<close> holds the
  bytes \<open>buf[i+1..ret-1]\<close> of the same chunk, so \<open>i + 1 < ret && buf[i+1] == '['\<close> is
  \<open>rest \<noteq> [] \<and> hd rest = 0x5b\<close>.
\<close>

definition keyboard_byte :: "byte \<Rightarrow> byte list \<Rightarrow> kbd_state \<Rightarrow> kbd_state" where
  "keyboard_byte c rest s =
    (if escape_len s > 0 then
       (case process_escape_sequence (add_to_escape_buf c s) of
          (hid_code, s') \<Rightarrow> if hid_code \<noteq> 0 then press_release c hid_code s' else s')
     else if c = 27 then
       (if rest \<noteq> [] \<and> hd rest = 0x5b then add_to_escape_buf c s
        else press_release c (ascii_to_hid c) s)
     else press_release c (ascii_to_hid c) s)"

fun keyboard_loop :: "byte list \<Rightarrow> kbd_state \<Rightarrow> kbd_state" where
  "keyboard_loop [] s = s"
| "keyboard_loop (c # rest) s = keyboard_loop rest (keyboard_byte c rest s)"

text \<open>
  What \<open>read\<close> on standard input gives: a failure with \<open>errno\<close>, or the bytes read (none
  at end of input).  \<open>keyboard\<close> returns its status and the state.
\<close>

datatype stdin_read = StdinFailed int | StdinBytes "byte list"

definition keyboard :: "stdin_read \<Rightarrow> kbd_state \<Rightarrow> int \<times> kbd_state" where
  "keyboard r s =
    (case r of
       StdinFailed e \<Rightarrow> (- e, s)
     | StdinBytes buf \<Rightarrow> if buf = [] then (- EFAULT, s) else (0, keyboard_loop buf s))"

text \<open>The translator run over successive chunks read from standard input.\<close>

fun keyboard_chunks :: "byte list list \<Rightarrow> kbd_state \<Rightarrow> kbd_state" where
  "keyboard_chunks [] s = s"
| "keyboard_chunks (buf # bufs) s = keyboard_chunks bufs (snd (keyboard (StdinBytes buf) s))"

text \<open>
  The state after the first \<open>n\<close> iterations of the loop of \<open>keyboard\<close> on the chunk
  \<open>buf\<close>; \<open>keyboard_loop buf\<close> is \<open>keyboard_iter (length buf) buf\<close>.
\<close>

fun keyboard_iter :: "nat \<Rightarrow> byte list \<Rightarrow> kbd_state \<Rightarrow> kbd_state" where
  "keyboard_iter 0 buf s = s"
| "keyboard_iter (Suc n) [] s = s"
| "keyboard_iter (Suc n) (c # rest) s = keyboard_iter n rest (keyboard_byte c rest s)"

text \<open>A sequence of calls of \<open>add_key\<close>, with no release in between.\<close>

fun press_all :: "byte list \<Rightarrow> kbd_state \<Rightarrow> kbd_state" where
  "press_all [] s = s"
| "press_all (c # cs) s = press_all cs (add_key c s)"

section \<open>The event dispatcher\<close>

text \<open>
  One return of \<open>poll\<close> in the loop of \<open>main\<close>, with what the environment delivers during
  that iteration: the result of \<open>poll\<close>, the \<open>POLLHUP\<close> and \<open>POLLIN\<close> bits of the two
  descriptors, and the results of the reads that \<open>keyboard\<close> and \<open>event\<close> make if they
  are called.
\<close>

record wakeup =
  poll_ret :: int
  stdin_hup :: bool
  uhid_hup :: bool
  stdin_in :: bool
  uhid_in :: bool
  stdin_data :: stdin_read
  uhid_data :: uhid_read

text \<open>One iteration of the loop; the first component tells whether it leaves the loop.\<close>

definition wakeup_step :: "wakeup \<Rightarrow> kbd_state \<Rightarrow> bool \<times> kbd_state" where
  "wakeup_step w s =
    (if poll_ret w < 0 then (True, s)
     else if stdin_hup w then (True, s)
     else if uhid_hup w then (True, s)
     else
       (case (if stdin_in w then keyboard (stdin_data w) s else (0, s)) of
          (ret, s') \<Rightarrow>
            if stdin_in w \<and> ret \<noteq> 0 then (True, s')
            else if uhid_in w \<and> fst (event (uhid_data w)) \<noteq> 0 then (True, s')
            else (False, s')))"

text \<open>
  The loop \<open>while (1)\<close> blocks in \<open>poll\<close> without a timeout.  It is run over the list of
  wakeups the environment delivers; \<open>None\<close> means that the list is used up and the
  program is still waiting in \<open>poll\<close>.
\<close>

fun main_loop :: "wakeup list \<Rightarrow> kbd_state \<Rightarrow> kbd_state option" where
  "main_loop [] s = None"
| "main_loop (w # ws) s =
    (case wakeup_step w s of
       (True, s') \<Rightarrow> Some s'
     | (False, s') \<Rightarrow> main_loop ws s')"

text \<open>
  What \<open>main\<close> meets: whether the first argument asks for help, whether \<open>open\<close> succeeds,
  the results of the writes of the create and destroy events, and the wakeups.  The
  terminal settings made at the start have no effect on the state modelled here.
  \<open>main\<close> gives the exit status and the events written, or \<open>None\<close> while the program
  is still waiting.
\<close>

record environment =
  help_requested :: bool
  open_ok :: bool
  create_write :: write_result
  wakeups :: "wakeup list"
  destroy_write :: write_result

definition main :: "environment \<Rightarrow> (exit_status \<times> uhid_event list) option" where
  "main e =
    (if help_requested e then Some (EXIT_SUCCESS, [])
     else if \<not> open_ok e then Some (EXIT_FAILURE, [])
     else
       (case create (create_write e) init_state of
          (ret, s) \<Rightarrow>
            if ret \<noteq> 0 then Some (EXIT_FAILURE, written s)
            else
              (case main_loop (wakeups e) s of
                 None \<Rightarrow> None
               | Some s' \<Rightarrow> Some (EXIT_SUCCESS, written (destroy (destroy_write e) s')))))"

section \<open>Notions used in the statements\<close>

text \<open>The tracker holds nothing: no key pressed, no modifier, every slot zero.\<close>

definition tracker_empty :: "kbd_state \<Rightarrow> bool" where
  "tracker_empty s =
    (num_keys_pressed s = 0 \<and> modifier_keys s = 0 \<and> key_codes s = [0, 0, 0, 0, 0, 0])"

text \<open>The input event with an 8-byte report: modifier byte \<open>m\<close>, one key code \<open>k\<close>.\<close>

definition key_report :: "byte \<Rightarrow> byte \<Rightarrow> uhid_event" where
  "key_report m k = UHID_INPUT \<lparr>in_data = [m, 0, k, 0, 0, 0, 0, 0], in_size = 8\<rparr>"

definition zero_report :: "uhid_event \<Rightarrow> bool" where
  "zero_report e =
    (case e of UHID_INPUT r \<Rightarrow> in_size r = 8 \<and> in_data r = [0, 0, 0, 0, 0, 0, 0, 0]
     | _ \<Rightarrow> False)"

definition one_key_report :: "uhid_event \<Rightarrow> bool" where
  "one_key_report e =
    (case e of
       UHID_INPUT p \<Rightarrow> in_size p = 8 \<and> length (in_data p) = 8 \<and>
         length (filter (\<lambda>b. b \<noteq> 0) (drop 2 (in_data p))) \<le> 1
     | _ \<Rightarrow> False)"

text \<open>
  The log is a sequence of pairs: a report with at most one nonzero key code in bytes
  2 to 7, then a report of eight zero bytes.
\<close>

fun press_release_log :: "uhid_event list \<Rightarrow> bool" where
  "press_release_log [] = True"
| "press_release_log [e] = False"
| "press_release_log (p # r # es) =
    (one_key_report p \<and> zero_report r \<and> press_release_log es)"

text \<open>
  The invariants of the tracker: six slots, at most six keys held, the held codes distinct
  and nonzero, the slots behind them zero.
\<close>

definition tracker_inv :: "kbd_state \<Rightarrow> bool" where
  "tracker_inv s =
    (length (key_codes s) = 6 \<and> num_keys_pressed s \<le> 6 \<and>
     distinct (take (num_keys_pressed s) (key_codes s)) \<and>
     0 \<notin> set (take (num_keys_pressed s) (key_codes s)) \<and>
     drop (num_keys_pressed s) (key_codes s) = replicate (6 - num_keys_pressed s) 0)"

definition is_destroy :: "uhid_event \<Rightarrow> bool" where
  "is_destroy ev = (case ev of UHID_DESTROY \<Rightarrow> True | _ \<Rightarrow> False)"

text \<open>Between two bytes: the tracker is empty and the log consists of such pairs.\<close>

definition quiet :: "kbd_state \<Rightarrow> bool" where
  "quiet s = (tracker_empty s \<and> press_release_log (written s))"

section \<open>Signed and unsigned bytes\<close>

lemma sint_byte:
  fixes x :: byte
  shows "sint x = (if x < 0x80 then uint x else uint x - 256)"
proof (cases "x < 0x80")
  case True
  then have "uint x < 128" by (simp add: word_less_def)
  moreover have "- 128 \<le> uint x" by (rule order_trans [OF _ uint_ge_0]) simp
  ultimately have "sint x = uint x"
    by (simp add: sint_uint signed_take_bit_int_eq_self_iff)
  with True show ?thesis by simp
next
  case False
  then have "128 \<le> uint x" by (simp add: word_less_def not_less)
  moreover have "uint x < 256" using uint_bounded [of x] by simp
  moreover from calculation have "uint x div 128 = 1" by simp
  ultimately have "sint x = uint x - 256"
    by (simp add: sint_uint signed_take_bit_eq_take_bit_minus take_bit_int_eq_self bit_iff_odd)
  with False show ?thesis by simp
qed


text \<open>
  A range test between two ASCII constants gives the same result whether the byte is read
  as a signed \<open>char\<close> or as an unsigned one.
\<close>

lemma signed_range_test:
  fixes c lo hi :: byte
  assumes "lo < 0x80" and "hi < 0x80"
  shows "(lo <=s c \<and> c <=s hi) \<longleftrightarrow> (lo \<le> c \<and> c \<le> hi)"
proof -
  have lo: "sint lo = uint lo" "uint lo < 128" using assms(1) by (simp_all add: sint_byte word_less_def)
  have hi: "sint hi = uint hi" "uint hi < 128" using assms(2) by (simp_all add: sint_byte word_less_def)
  show ?thesis
  proof (cases "c < 0x80")
    case True
    then have "sint c = uint c" by (simp add: sint_byte)
    then show ?thesis using lo hi by (simp add: word_sle_eq word_le_def)
  next
    case False
    then have c: "sint c = uint c - 256" "128 \<le> uint c"
      by (simp_all add: sint_byte word_less_def not_less)
    have "uint c < 256" using uint_bounded [of c] by simp
    with c have "sint c < 0" by linarith
    moreover have "0 \<le> sint lo" unfolding lo(1) by (rule uint_ge_0)
    ultimately have "\<not> lo <=s c" unfolding word_sle_eq by linarith
    moreover have "\<not> c \<le> hi" unfolding word_le_def using c(2) hi(2) by linarith
    ultimately show ?thesis by simp
  qed
qed

section \<open>Reports of one key\<close>

lemma replicate_6: "replicate 6 x = [x, x, x, x, x, x]"
  by (simp add: numeral_eq_Suc)

lemma replicate_5: "replicate 5 x = [x, x, x, x, x]"
  by (simp add: numeral_eq_Suc)

lemma send_event_empty:
  "num_keys_pressed s = 0 \<Longrightarrow>
   send_event s = s\<lparr>written := written s @ [key_report (modifier_keys s) 0]\<rparr>"
  by (simp add: send_event_def replicate_6 key_report_def)

lemma send_event_one:
  "num_keys_pressed s = 1 \<Longrightarrow> key_codes s = k # ks \<Longrightarrow>
   send_event s = s\<lparr>written := written s @ [key_report (modifier_keys s) k]\<rparr>"
  by (simp add: send_event_def replicate_5 key_report_def)

lemma add_key_empty:
  "num_keys_pressed s = 0 \<Longrightarrow>
   add_key c s = s\<lparr>key_codes := (key_codes s)[0 := c], num_keys_pressed := 1\<rparr>"
  by (simp add: add_key_def)

lemma remove_key_one:
  "num_keys_pressed s = 1 \<Longrightarrow> key_codes s ! 0 = c \<Longrightarrow>
   remove_key c s = s\<lparr>key_codes := (key_codes s)[0 := 0], num_keys_pressed := 0\<rparr>"
  by (simp add: remove_key_def)

lemma press_release_empty:
  assumes "tracker_empty s" and "hid_code \<noteq> 0"
  shows "press_release c hid_code s =
    s\<lparr>written := written s @
      [key_report (if needs_shift c hid_code then 0x02 else 0) hid_code, key_report 0 0]\<rparr>"
  using assms
  by (simp add: press_release_def tracker_empty_def add_key_empty send_event_one
      send_event_empty remove_key_one Let_def)

lemma press_release_zero: "press_release c 0 s = s"
  by (simp add: press_release_def)

lemma tracker_empty_written [simp]: "tracker_empty (s\<lparr>written := w\<rparr>) = tracker_empty s"
  by (simp add: tracker_empty_def)

lemma tracker_empty_escape_len [simp]: "tracker_empty (s\<lparr>escape_len := n\<rparr>) = tracker_empty s"
  by (simp add: tracker_empty_def)

lemma tracker_empty_escape_buf [simp]: "tracker_empty (s\<lparr>escape_buf := b\<rparr>) = tracker_empty s"
  by (simp add: tracker_empty_def)

lemma tracker_empty_add_to_escape_buf [simp]:
  "tracker_empty (add_to_escape_buf c s) = tracker_empty s"
  by (simp add: add_to_escape_buf_def)

lemma written_add_to_escape_buf [simp]: "written (add_to_escape_buf c s) = written s"
  by (simp add: add_to_escape_buf_def)

text \<open>What \<open>process_escape_sequence\<close> can return: no code and the state as it was, or an
  arrow code and the buffer length reset.\<close>

lemma process_escape_sequence_cases:
  "process_escape_sequence s = (0, s) \<or>
   (\<exists>k. (k = 0x52 \<or> k = 0x51 \<or> k = 0x4f \<or> k = 0x50) \<and>
        process_escape_sequence s = (k, s\<lparr>escape_len := 0\<rparr>))"
  by (simp add: process_escape_sequence_def Let_def)

lemma needs_shift_arrow:
  "k = 0x52 \<or> k = 0x51 \<or> k = 0x4f \<or> k = 0x50 \<Longrightarrow> \<not> needs_shift c k"
  by (auto simp: needs_shift_def)

lemma keyboard_byte_normal:
  "escape_len s = 0 \<Longrightarrow> c \<noteq> 27 \<or> rest = [] \<or> hd rest \<noteq> 0x5b \<Longrightarrow>
   keyboard_byte c rest s = press_release c (ascii_to_hid c) s"
  by (auto simp: keyboard_byte_def)

lemma keyboard_byte_effect:
  assumes "tracker_empty s"
  shows "tracker_empty (keyboard_byte c rest s) \<and>
    (written (keyboard_byte c rest s) = written s \<or>
     (\<exists>k. k \<noteq> 0 \<and> written (keyboard_byte c rest s) =
          written s @ [key_report (if needs_shift c k then 0x02 else 0) k, key_report 0 0]))"
proof (cases "escape_len s > 0")
  case True
  let ?s1 = "add_to_escape_buf c s"
  have e1: "tracker_empty ?s1" "written ?s1 = written s" using assms by simp_all
  from process_escape_sequence_cases [of ?s1] show ?thesis
  proof
    assume "process_escape_sequence ?s1 = (0, ?s1)"
    then have "keyboard_byte c rest s = ?s1" using True by (simp add: keyboard_byte_def)
    with e1 show ?thesis by simp
  next
    assume "\<exists>k. (k = 0x52 \<or> k = 0x51 \<or> k = 0x4f \<or> k = 0x50) \<and>
        process_escape_sequence ?s1 = (k, ?s1\<lparr>escape_len := 0\<rparr>)"
    then obtain k where k: "k = 0x52 \<or> k = 0x51 \<or> k = 0x4f \<or> k = 0x50"
      and p: "process_escape_sequence ?s1 = (k, ?s1\<lparr>escape_len := 0\<rparr>)" by blast
    from k have k0: "k \<noteq> 0" by auto
    let ?s2 = "?s1\<lparr>escape_len := 0\<rparr>"
    have e2: "tracker_empty ?s2" "written ?s2 = written s" using e1 by simp_all
    have "keyboard_byte c rest s = press_release c k ?s2"
      using True p k0 by (simp add: keyboard_byte_def)
    then have eq: "keyboard_byte c rest s = ?s2\<lparr>written := written s @
            [key_report (if needs_shift c k then 0x02 else 0) k, key_report 0 0]\<rparr>"
      using press_release_empty [OF e2(1) k0, of c] e2(2) by simp
    have "tracker_empty (keyboard_byte c rest s)"
      unfolding eq using e2(1) by simp
    moreover have "written (keyboard_byte c rest s) =
      written s @ [key_report (if needs_shift c k then 0x02 else 0) k, key_report 0 0]"
      unfolding eq by simp
    ultimately show ?thesis using k0 by (intro conjI disjI2 exI [of _ k]) simp_all
  qed
next
  case False
  then have len: "escape_len s = 0" by simp
  show ?thesis
  proof (cases "c = 27 \<and> rest \<noteq> [] \<and> hd rest = 0x5b")
    case True
    then have "keyboard_byte c rest s = add_to_escape_buf c s"
      using len by (simp add: keyboard_byte_def)
    then show ?thesis using assms by simp
  next
    case False
    then have kb: "keyboard_byte c rest s = press_release c (ascii_to_hid c) s"
      using len by (intro keyboard_byte_normal) auto
    show ?thesis
    proof (cases "ascii_to_hid c = 0")
      case True
      then show ?thesis using kb assms by (simp add: press_release_zero)
    next
      case False
      have eq: "keyboard_byte c rest s = s\<lparr>written := written s @
          [key_report (if needs_shift c (ascii_to_hid c) then 0x02 else 0) (ascii_to_hid c),
           key_report 0 0]\<rparr>"
        using kb press_release_empty [OF assms False, of c] by simp
      have "tracker_empty (keyboard_byte c rest s)"
        unfolding eq using assms by simp
      moreover have "written (keyboard_byte c rest s) = written s @
          [key_report (if needs_shift c (ascii_to_hid c) then 0x02 else 0) (ascii_to_hid c),
           key_report 0 0]"
        unfolding eq by simp
      ultimately show ?thesis using False
        by (intro conjI disjI2 exI [of _ "ascii_to_hid c"]) simp_all
    qed
  qed
qed

lemma keyboard_byte_tracker_empty:
  "tracker_empty s \<Longrightarrow> tracker_empty (keyboard_byte c rest s)"
  using keyboard_byte_effect by blast

lemma one_key_report_key_report: "one_key_report (key_report m k)"
  by (simp add: one_key_report_def key_report_def)

lemma zero_report_key_report: "zero_report (key_report 0 0)"
  by (simp add: zero_report_def key_report_def)

lemma press_release_log_append:
  "press_release_log es \<Longrightarrow> press_release_log (es @ [key_report m k, key_report 0 0])"
  by (induction es rule: press_release_log.induct)
    (simp_all add: one_key_report_key_report zero_report_key_report)

lemma keyboard_byte_log:
  assumes "tracker_empty s" and "press_release_log (written s)"
  shows "press_release_log (written (keyboard_byte c rest s))"
  using keyboard_byte_effect [OF assms(1), of c rest] assms(2)
  by (auto simp: press_release_log_append)

lemma keyboard_byte_quiet: "quiet s \<Longrightarrow> quiet (keyboard_byte c rest s)"
  by (simp add: quiet_def keyboard_byte_tracker_empty keyboard_byte_log)

lemma keyboard_iter_quiet: "quiet s \<Longrightarrow> quiet (keyboard_iter n buf s)"
  by (induction n buf s rule: keyboard_iter.induct) (simp_all add: keyboard_byte_quiet)

lemma keyboard_loop_quiet: "quiet s \<Longrightarrow> quiet (keyboard_loop buf s)"
  by (induction buf arbitrary: s) (simp_all add: keyboard_byte_quiet)

lemma keyboard_quiet: "quiet s \<Longrightarrow> quiet (snd (keyboard r s))"
  by (cases r) (simp_all add: keyboard_def keyboard_loop_quiet)

lemma keyboard_chunks_quiet: "quiet s \<Longrightarrow> quiet (keyboard_chunks bufs s)"
  by (induction bufs arbitrary: s) (simp_all add: keyboard_quiet)

lemma quiet_init_state: "quiet init_state"
  by (simp add: quiet_def tracker_empty_def init_state_def)

lemma keyboard_loop_iter: "keyboard_loop buf s = keyboard_iter (length buf) buf s"
  by (induction buf arbitrary: s) simp_all

section \<open>The tracker is empty between any two bytes\<close>

text \<open>
  Claim C10.  The program starts in \<open>init_state\<close>.  After any chunks read from standard
  input, and after any number of iterations of the loop on a further chunk, the tracker
  is empty again (no key pressed, modifier byte 0, all six slots zero), and the events
  written so far are pairs of a press report with at most one nonzero key code in bytes 2
  to 7 followed by a release report of eight zero bytes.
\<close>

theorem tracker_empty_after_every_byte:
  "tracker_empty (keyboard_iter n buf (keyboard_chunks bufs init_state)) \<and>
   press_release_log (written (keyboard_iter n buf (keyboard_chunks bufs init_state)))"
  using keyboard_iter_quiet [OF keyboard_chunks_quiet [OF quiet_init_state], of n buf bufs]
  by (simp add: quiet_def)


theorem tracker_empty_after_every_byte_witness:
  "tracker_empty (keyboard_iter 1 [0x51, 0x71] (keyboard_chunks [[0x71]] init_state)) \<and>
   press_release_log
     (written (keyboard_iter 1 [0x51, 0x71] (keyboard_chunks [[0x71]] init_state)))"
  using tracker_empty_after_every_byte [of 1 "[0x51, 0x71]" "[[0x71]]"] by simp

section \<open>Letters and the shift modifier\<close>

lemma upper_to_lower:
  fixes u :: byte
  assumes "0x41 \<le> u" and "u \<le> 0x5a"
  shows "0x61 \<le> u + 0x20" and "u + 0x20 \<le> 0x7a" and "u + 0x20 - 0x61 = u - 0x41"
proof -
  have a: "0x41 \<le> unat u" "unat u \<le> 0x5a"
    using assms by (simp_all add: word_le_nat_alt)
  have b: "unat (u + 0x20) = unat u + 0x20"
    using a by (simp add: unat_word_ariths)
  show "0x61 \<le> u + 0x20" "u + 0x20 \<le> 0x7a"
    using a b by (simp_all add: word_le_nat_alt)
  show "u + 0x20 - 0x61 = u - 0x41" by simp
qed

lemma upper_not_lower:
  fixes u :: byte
  assumes "0x41 \<le> u" and "u \<le> 0x5a"
  shows "\<not> (0x61 \<le> u \<and> u \<le> 0x7a)"
  using assms by (simp add: word_le_nat_alt)

lemma upper_code_range:
  fixes u :: byte
  assumes "0x41 \<le> u" and "u \<le> 0x5a"
  shows "0x04 \<le> unat (0x04 + (u - 0x41))" and "unat (0x04 + (u - 0x41)) \<le> 0x1d"
proof -
  have a: "0x41 \<le> unat u" "unat u \<le> 0x5a"
    using assms by (simp_all add: word_le_nat_alt)
  have "(0x3d :: byte) \<le> u"
    using a by (simp add: word_le_nat_alt)
  then have "unat (u - 0x3d) = unat u - 0x3d"
    by (simp add: unat_sub)
  moreover have "0x04 + (u - 0x41) = u - 0x3d" by simp
  ultimately have "unat (0x04 + (u - 0x41)) = unat u - 0x3d" by simp
  then show "0x04 \<le> unat (0x04 + (u - 0x41))" "unat (0x04 + (u - 0x41)) \<le> 0x1d"
    using a by simp_all
qed

lemma ascii_to_hid_upper:
  assumes "0x41 \<le> u" and "u \<le> 0x5a"
  shows "ascii_to_hid u = 0x04 + (u - 0x41)"
  using upper_not_lower [OF assms] assms by (simp add: ascii_to_hid_def)

lemma ascii_to_hid_upper_range:
  assumes "0x41 \<le> u" and "u \<le> 0x5a"
  shows "0x04 \<le> unat (ascii_to_hid u)" and "unat (ascii_to_hid u) \<le> 0x1d"
  using upper_code_range [OF assms] ascii_to_hid_upper [OF assms] by simp_all

lemma ascii_to_hid_upper_nonzero:
  assumes "0x41 \<le> u" and "u \<le> 0x5a"
  shows "ascii_to_hid u \<noteq> 0"
  using ascii_to_hid_upper_range(1) [OF assms] by auto

lemma needs_shift_upper:
  assumes "0x41 \<le> u" and "u \<le> 0x5a"
  shows "needs_shift u (ascii_to_hid u)"
proof -
  have "unat (ascii_to_hid u) \<noteq> 0x52" "unat (ascii_to_hid u) \<noteq> 0x51"
    "unat (ascii_to_hid u) \<noteq> 0x4f" "unat (ascii_to_hid u) \<noteq> 0x50"
    using ascii_to_hid_upper_range(2) [OF assms] by simp_all
  then have "ascii_to_hid u \<noteq> 0x52" "ascii_to_hid u \<noteq> 0x51"
    "ascii_to_hid u \<noteq> 0x4f" "ascii_to_hid u \<noteq> 0x50"
    by auto
  then show ?thesis using assms by (simp add: needs_shift_def)
qed

lemma needs_shift_not_upper: "\<not> (0x41 \<le> c \<and> c \<le> 0x5a) \<Longrightarrow> \<not> needs_shift c k"
  by (auto simp: needs_shift_def)

lemma ascii_to_hid_case:
  assumes "0x41 \<le> u" and "u \<le> 0x5a"
  shows "ascii_to_hid (u + 0x20) = ascii_to_hid u"
  using upper_to_lower [OF assms] ascii_to_hid_upper [OF assms]
  by (simp add: ascii_to_hid_def)


lemma keyboard_byte_upper:
  assumes "tracker_empty s" and "escape_len s = 0" and "0x41 \<le> c" and "c \<le> 0x5a"
  shows "keyboard_byte c rest s =
    s\<lparr>written := written s @ [key_report 0x02 (ascii_to_hid c), key_report 0 0]\<rparr>"
proof -
  have "c \<noteq> 27" using assms(3) by auto
  then have "keyboard_byte c rest s = press_release c (ascii_to_hid c) s"
    using assms(2) by (simp add: keyboard_byte_normal)
  then show ?thesis
    using press_release_empty [OF assms(1) ascii_to_hid_upper_nonzero [OF assms(3,4)], of c]
      needs_shift_upper [OF assms(3,4)]
    by simp
qed

lemma keyboard_byte_not_upper:
  assumes "tracker_empty s" and "escape_len s = 0" and "\<not> (0x41 \<le> c \<and> c \<le> 0x5a)"
    and "c \<noteq> 27 \<or> rest = [] \<or> hd rest \<noteq> 0x5b"
  shows "keyboard_byte c rest s =
    (if ascii_to_hid c = 0 then s
     else s\<lparr>written := written s @ [key_report 0 (ascii_to_hid c), key_report 0 0]\<rparr>)"
proof -
  have kb: "keyboard_byte c rest s = press_release c (ascii_to_hid c) s"
    using assms(2,4) by (rule keyboard_byte_normal)
  show ?thesis
  proof (cases "ascii_to_hid c = 0")
    case True
    then show ?thesis using kb by (simp add: press_release_zero)
  next
    case False
    then show ?thesis
      using kb press_release_empty [OF assms(1) False, of c] needs_shift_not_upper [OF assms(3)]
      by simp
  qed
qed

lemma keyboard_byte_escape:
  assumes "tracker_empty s" and "escape_len s > 0"
  shows "written (keyboard_byte c rest s) = written s \<or>
    (\<exists>k. (k = 0x52 \<or> k = 0x51 \<or> k = 0x4f \<or> k = 0x50) \<and>
      written (keyboard_byte c rest s) = written s @ [key_report 0 k, key_report 0 0])"
proof -
  let ?s1 = "add_to_escape_buf c s"
  have e1: "tracker_empty ?s1" "written ?s1 = written s" using assms by simp_all
  from process_escape_sequence_cases [of ?s1] show ?thesis
  proof
    assume "process_escape_sequence ?s1 = (0, ?s1)"
    then have "keyboard_byte c rest s = ?s1" using assms(2) by (simp add: keyboard_byte_def)
    with e1 show ?thesis by simp
  next
    assume "\<exists>k. (k = 0x52 \<or> k = 0x51 \<or> k = 0x4f \<or> k = 0x50) \<and>
        process_escape_sequence ?s1 = (k, ?s1\<lparr>escape_len := 0\<rparr>)"
    then obtain k where k: "k = 0x52 \<or> k = 0x51 \<or> k = 0x4f \<or> k = 0x50"
      and p: "process_escape_sequence ?s1 = (k, ?s1\<lparr>escape_len := 0\<rparr>)" by blast
    from k have k0: "k \<noteq> 0" by auto
    let ?s2 = "?s1\<lparr>escape_len := 0\<rparr>"
    have e2: "tracker_empty ?s2" "written ?s2 = written s" using e1 by simp_all
    have "keyboard_byte c rest s = press_release c k ?s2"
      using assms(2) p k0 by (simp add: keyboard_byte_def)
    then have "written (keyboard_byte c rest s) = written s @ [key_report 0 k, key_report 0 0]"
      using press_release_empty [OF e2(1) k0, of c] e2(2) needs_shift_arrow [OF k, of c]
      by simp
    with k show ?thesis by blast
  qed
qed

text \<open>
  Claim C3.  An upper-case letter \<open>u\<close> and its lower-case form \<open>u + 0x20\<close> have the same
  usage code.  With an empty tracker, a byte handled as a character (no escape sequence
  being collected) that is an upper-case letter is reported with modifier byte \<open>0x02\<close>
  (left shift) in the press report and modifier byte 0 in the release report; a byte that
  is not an upper-case letter is reported with modifier byte 0 in both, or not at all.  A
  byte handled while an escape sequence is collected gives no report or the reports of an
  arrow code, with modifier byte 0 in both.  The tracker is empty in every state the
  program reaches between two bytes (\<open>keyboard_iter_quiet\<close>).
\<close>

theorem shift_only_for_upper_case_letters:
  assumes "tracker_empty s"
  shows "(0x41 \<le> u \<and> u \<le> 0x5a \<longrightarrow> ascii_to_hid (u + 0x20) = ascii_to_hid u) \<and>
    (escape_len s = 0 \<and> 0x41 \<le> c \<and> c \<le> 0x5a \<longrightarrow>
       written (keyboard_byte c rest s) =
         written s @ [key_report 0x02 (ascii_to_hid c), key_report 0 0]) \<and>
    (escape_len s = 0 \<and> \<not> (0x41 \<le> c \<and> c \<le> 0x5a) \<longrightarrow>
       written (keyboard_byte c rest s) = written s \<or>
       written (keyboard_byte c rest s) =
         written s @ [key_report 0 (ascii_to_hid c), key_report 0 0]) \<and>
    (escape_len s > 0 \<longrightarrow>
       written (keyboard_byte c rest s) = written s \<or>
       (\<exists>k. (k = 0x52 \<or> k = 0x51 \<or> k = 0x4f \<or> k = 0x50) \<and>
          written (keyboard_byte c rest s) = written s @ [key_report 0 k, key_report 0 0]))"
proof (intro conjI impI)
  assume "0x41 \<le> u \<and> u \<le> 0x5a"
  then show "ascii_to_hid (u + 0x20) = ascii_to_hid u" by (simp add: ascii_to_hid_case)
next
  assume "escape_len s = 0 \<and> 0x41 \<le> c \<and> c \<le> 0x5a"
  then show "written (keyboard_byte c rest s) =
      written s @ [key_report 0x02 (ascii_to_hid c), key_report 0 0]"
    using keyboard_byte_upper [OF assms, of c rest] by simp
next
  assume a: "escape_len s = 0 \<and> \<not> (0x41 \<le> c \<and> c \<le> 0x5a)"
  show "written (keyboard_byte c rest s) = written s \<or>
       written (keyboard_byte c rest s) =
         written s @ [key_report 0 (ascii_to_hid c), key_report 0 0]"
  proof (cases "c = 27 \<and> rest \<noteq> [] \<and> hd rest = 0x5b")
    case True
    then have "keyboard_byte c rest s = add_to_escape_buf c s"
      using a by (simp add: keyboard_byte_def)
    then show ?thesis by simp
  next
    case False
    then have "c \<noteq> 27 \<or> rest = [] \<or> hd rest \<noteq> 0x5b" by blast
    from keyboard_byte_not_upper [OF assms _ _ this] a show ?thesis
      by (cases "ascii_to_hid c = 0") simp_all
  qed
next
  assume "escape_len s > 0"
  then show "written (keyboard_byte c rest s) = written s \<or>
       (\<exists>k. (k = 0x52 \<or> k = 0x51 \<or> k = 0x4f \<or> k = 0x50) \<and>
          written (keyboard_byte c rest s) = written s @ [key_report 0 k, key_report 0 0])"
    using keyboard_byte_escape [OF assms] by simp
qed

lemma tracker_empty_init_state: "tracker_empty init_state"
  by (simp add: tracker_empty_def init_state_def)

lemma escape_len_init_state: "escape_len init_state = 0"
  by (simp add: init_state_def)

lemma written_init_state: "written init_state = []"
  by (simp add: init_state_def)

theorem shift_only_for_upper_case_letters_witness:
  "tracker_empty init_state \<and>
   ascii_to_hid 0x71 = ascii_to_hid 0x51 \<and>
   written (keyboard_byte 0x51 [] init_state) = [key_report 0x02 0x14, key_report 0 0]"
proof -
  have a: "ascii_to_hid 0x51 = 0x14" by (simp add: ascii_to_hid_def)
  show ?thesis
    using shift_only_for_upper_case_letters [OF tracker_empty_init_state, of "0x51" "0x51" "[]"]
    by (simp add: tracker_empty_init_state escape_len_init_state written_init_state a)
qed

section \<open>End-to-end scenarios\<close>

lemma ascii_to_hid_values:
  "ascii_to_hid 0x71 = 0x14" "ascii_to_hid 0x51 = 0x14" "ascii_to_hid 27 = 0x29"
  "ascii_to_hid 0x5b = 0x2f" "ascii_to_hid 0x41 = 0x04"
  by (simp_all add: ascii_to_hid_def)

lemma needs_shift_values:
  "\<not> needs_shift 0x71 0x14" "needs_shift 0x51 0x14" "\<not> needs_shift 27 0x29"
  "\<not> needs_shift 0x5b 0x2f" "needs_shift 0x41 0x04" "\<not> needs_shift 0x41 0x52"
  by (simp_all add: needs_shift_def)

text \<open>
  Claim C4.  From a state with an empty tracker and no escape sequence being collected
  (the initial state is one), a chunk holding the one byte \<open>'q'\<close> makes \<open>keyboard\<close>
  return 0 with exactly two events added to the log: the input report
  \<open>00 00 14 00 00 00 00 00\<close> and then the all-zero report.  The byte \<open>'Q'\<close> gives
  \<open>02 00 14 00 00 00 00 00\<close> and then the all-zero report.
\<close>

theorem q_press_and_release:
  assumes "tracker_empty s" and "escape_len s = 0"
  shows "keyboard (StdinBytes [0x71]) s =
      (0, s\<lparr>written := written s @
        [UHID_INPUT \<lparr>in_data = [0x00, 0x00, 0x14, 0, 0, 0, 0, 0], in_size = 8\<rparr>,
         UHID_INPUT \<lparr>in_data = [0x00, 0x00, 0, 0, 0, 0, 0, 0], in_size = 8\<rparr>]\<rparr>) \<and>
    keyboard (StdinBytes [0x51]) s =
      (0, s\<lparr>written := written s @
        [UHID_INPUT \<lparr>in_data = [0x02, 0x00, 0x14, 0, 0, 0, 0, 0], in_size = 8\<rparr>,
         UHID_INPUT \<lparr>in_data = [0x00, 0x00, 0, 0, 0, 0, 0, 0], in_size = 8\<rparr>]\<rparr>)"
proof -
  have "keyboard_byte 0x71 [] s = press_release 0x71 0x14 s"
    "keyboard_byte 0x51 [] s = press_release 0x51 0x14 s"
    using assms(2) by (simp_all add: keyboard_byte_normal ascii_to_hid_values)
  then show ?thesis
    using press_release_empty [OF assms(1), of "0x14" "0x71"]
      press_release_empty [OF assms(1), of "0x14" "0x51"]
    by (simp add: keyboard_def needs_shift_values key_report_def)
qed

theorem q_press_and_release_witness:
  "tracker_empty init_state \<and> escape_len init_state = 0 \<and>
   written (snd (keyboard (StdinBytes [0x71]) init_state)) =
     [UHID_INPUT \<lparr>in_data = [0x00, 0x00, 0x14, 0, 0, 0, 0, 0], in_size = 8\<rparr>,
      UHID_INPUT \<lparr>in_data = [0x00, 0x00, 0, 0, 0, 0, 0, 0], in_size = 8\<rparr>] \<and>
   written (snd (keyboard (StdinBytes [0x51]) init_state)) =
     [UHID_INPUT \<lparr>in_data = [0x02, 0x00, 0x14, 0, 0, 0, 0, 0], in_size = 8\<rparr>,
      UHID_INPUT \<lparr>in_data = [0x00, 0x00, 0, 0, 0, 0, 0, 0], in_size = 8\<rparr>]"
  using q_press_and_release [OF tracker_empty_init_state escape_len_init_state]
  by (simp add: tracker_empty_init_state escape_len_init_state written_init_state)

section \<open>Escape sequences\<close>

lemma take_three:
  assumes "3 \<le> length xs"
  shows "take 3 xs = [xs ! 0, xs ! 1, xs ! 2]"
proof -
  obtain a b c ys where "xs = a # b # c # ys"
    using assms by (metis Suc_le_length_iff numeral_3_eq_3)
  then show ?thesis by (simp add: numeral_3_eq_3)
qed

lemma add_to_escape_buf_third:
  assumes "escape_len t = 2" and "length (escape_buf t) = 8"
  shows "add_to_escape_buf x t = t\<lparr>escape_buf := (escape_buf t)[2 := x], escape_len := 3\<rparr>"
  using assms by (simp add: add_to_escape_buf_def)

lemma process_escape_sequence_three:
  assumes "escape_len s = 3" and "escape_buf s ! 0 = 27" and "escape_buf s ! 1 = 0x5b"
  shows "process_escape_sequence s =
    (if escape_buf s ! 2 = 0x41 then (0x52, s\<lparr>escape_len := 0\<rparr>)
     else if escape_buf s ! 2 = 0x42 then (0x51, s\<lparr>escape_len := 0\<rparr>)
     else if escape_buf s ! 2 = 0x43 then (0x4f, s\<lparr>escape_len := 0\<rparr>)
     else if escape_buf s ! 2 = 0x44 then (0x50, s\<lparr>escape_len := 0\<rparr>)
     else (0, s))"
  using assms by (simp add: process_escape_sequence_def)

lemma third_byte_state:
  assumes "escape_len t = 2" and "length (escape_buf t) = 8"
    and "escape_buf t ! 0 = 27" and "escape_buf t ! 1 = 0x5b"
  shows "escape_len (add_to_escape_buf x t) = 3"
    and "escape_buf (add_to_escape_buf x t) ! 0 = 27"
    and "escape_buf (add_to_escape_buf x t) ! 1 = 0x5b"
    and "escape_buf (add_to_escape_buf x t) ! 2 = x"
  using assms by (simp_all add: add_to_escape_buf_third)

lemma keyboard_byte_third:
  assumes "tracker_empty t" and "escape_len t = 2" and "length (escape_buf t) = 8"
    and "escape_buf t ! 0 = 27" and "escape_buf t ! 1 = 0x5b"
  shows "keyboard_byte x rest t =
    (case process_escape_sequence (add_to_escape_buf x t) of
       (k, s') \<Rightarrow> if k = 0 then s'
         else s'\<lparr>written := written t @ [key_report 0 k, key_report 0 0]\<rparr>)"
proof -
  let ?s = "add_to_escape_buf x t"
  from process_escape_sequence_cases [of ?s] show ?thesis
  proof
    assume "process_escape_sequence ?s = (0, ?s)"
    then show ?thesis using assms(2) by (simp add: keyboard_byte_def)
  next
    assume "\<exists>k. (k = 0x52 \<or> k = 0x51 \<or> k = 0x4f \<or> k = 0x50) \<and>
        process_escape_sequence ?s = (k, ?s\<lparr>escape_len := 0\<rparr>)"
    then obtain k where k: "k = 0x52 \<or> k = 0x51 \<or> k = 0x4f \<or> k = 0x50"
      and p: "process_escape_sequence ?s = (k, ?s\<lparr>escape_len := 0\<rparr>)" by blast
    from k have k0: "k \<noteq> 0" by auto
    have e: "tracker_empty (?s\<lparr>escape_len := 0\<rparr>)" using assms(1) by simp
    have "keyboard_byte x rest t = press_release x k (?s\<lparr>escape_len := 0\<rparr>)"
      using assms(2) p k0 by (simp add: keyboard_byte_def)
    then show ?thesis
      using press_release_empty [OF e k0, of x] needs_shift_arrow [OF k, of x] p k0
      by simp
  qed
qed

text \<open>
  What the loop does with the third byte.  The translator has collected \<open>ESC '['\<close> and
  receives the byte \<open>x\<close>, so that the buffer holds the three bytes \<open>ESC '[' x\<close>.  For
  \<open>x\<close> one of \<open>'A'\<close>, \<open>'B'\<close>, \<open>'C'\<close>, \<open>'D'\<close>, \<open>process_escape_sequence\<close> returns the
  arrow code \<open>0x52\<close>, \<open>0x51\<close>, \<open>0x4f\<close>, \<open>0x50\<close> and sets the buffer length to 0, and
  the loop writes the press and release reports of that code.  For every other \<open>x\<close> it
  returns no code and the loop writes no report; the assignment \<open>escape_len = 0\<close> is
  not on that path, so the length stays 3.
\<close>

lemma arrow_sequences_resolve:
  assumes "tracker_empty t" and "escape_len t = 2" and "length (escape_buf t) = 8"
    and "escape_buf t ! 0 = 27" and "escape_buf t ! 1 = 0x5b"
  shows "escape_len (add_to_escape_buf x t) = 3 \<and>
    take 3 (escape_buf (add_to_escape_buf x t)) = [27, 0x5b, x] \<and>
    (x = 0x41 \<longrightarrow>
      process_escape_sequence (add_to_escape_buf x t) =
        (0x52, (add_to_escape_buf x t)\<lparr>escape_len := 0\<rparr>) \<and>
      escape_len (keyboard_byte x rest t) = 0 \<and>
      written (keyboard_byte x rest t) = written t @ [key_report 0 0x52, key_report 0 0]) \<and>
    (x = 0x42 \<longrightarrow>
      process_escape_sequence (add_to_escape_buf x t) =
        (0x51, (add_to_escape_buf x t)\<lparr>escape_len := 0\<rparr>) \<and>
      escape_len (keyboard_byte x rest t) = 0 \<and>
      written (keyboard_byte x rest t) = written t @ [key_report 0 0x51, key_report 0 0]) \<and>
    (x = 0x43 \<longrightarrow>
      process_escape_sequence (add_to_escape_buf x t) =
        (0x4f, (add_to_escape_buf x t)\<lparr>escape_len := 0\<rparr>) \<and>
      escape_len (keyboard_byte x rest t) = 0 \<and>
      written (keyboard_byte x rest t) = written t @ [key_report 0 0x4f, key_report 0 0]) \<and>
    (x = 0x44 \<longrightarrow>
      process_escape_sequence (add_to_escape_buf x t) =
        (0x50, (add_to_escape_buf x t)\<lparr>escape_len := 0\<rparr>) \<and>
      escape_len (keyboard_byte x rest t) = 0 \<and>
      written (keyboard_byte x rest t) = written t @ [key_report 0 0x50, key_report 0 0]) \<and>
    (x \<noteq> 0x41 \<and> x \<noteq> 0x42 \<and> x \<noteq> 0x43 \<and> x \<noteq> 0x44 \<longrightarrow>
      process_escape_sequence (add_to_escape_buf x t) = (0, add_to_escape_buf x t) \<and>
      keyboard_byte x rest t = add_to_escape_buf x t \<and>
      escape_len (keyboard_byte x rest t) = 3 \<and>
      written (keyboard_byte x rest t) = written t)"
proof -
  let ?s = "add_to_escape_buf x t"
  note st = third_byte_state [OF assms(2-5), of x]
  note p = process_escape_sequence_three [OF st(1-3), unfolded st(4)]
  note kb = keyboard_byte_third [OF assms, of x rest]
  have len: "escape_len ?s = 3" by (rule st(1))
  have buf: "take 3 (escape_buf ?s) = [27, 0x5b, x]"
  proof -
    have "3 \<le> length (escape_buf ?s)"
      using assms(2,3) by (simp add: add_to_escape_buf_third)
    then have "take 3 (escape_buf ?s) = [escape_buf ?s ! 0, escape_buf ?s ! 1, escape_buf ?s ! 2]"
      by (rule take_three)
    then show ?thesis using st by simp
  qed
  have a: "x = 0x41 \<longrightarrow>
      process_escape_sequence ?s = (0x52, ?s\<lparr>escape_len := 0\<rparr>) \<and>
      escape_len (keyboard_byte x rest t) = 0 \<and>
      written (keyboard_byte x rest t) = written t @ [key_report 0 0x52, key_report 0 0]"
  proof
    assume x: "x = 0x41"
    show "process_escape_sequence ?s = (0x52, ?s\<lparr>escape_len := 0\<rparr>) \<and>
      escape_len (keyboard_byte x rest t) = 0 \<and>
      written (keyboard_byte x rest t) = written t @ [key_report 0 0x52, key_report 0 0]"
      using p kb unfolding x by simp
  qed
  have b: "x = 0x42 \<longrightarrow>
      process_escape_sequence ?s = (0x51, ?s\<lparr>escape_len := 0\<rparr>) \<and>
      escape_len (keyboard_byte x rest t) = 0 \<and>
      written (keyboard_byte x rest t) = written t @ [key_report 0 0x51, key_report 0 0]"
  proof
    assume x: "x = 0x42"
    show "process_escape_sequence ?s = (0x51, ?s\<lparr>escape_len := 0\<rparr>) \<and>
      escape_len (keyboard_byte x rest t) = 0 \<and>
      written (keyboard_byte x rest t) = written t @ [key_report 0 0x51, key_report 0 0]"
      using p kb unfolding x by simp
  qed
  have c: "x = 0x43 \<longrightarrow>
      process_escape_sequence ?s = (0x4f, ?s\<lparr>escape_len := 0\<rparr>) \<and>
      escape_len (keyboard_byte x rest t) = 0 \<and>
      written (keyboard_byte x rest t) = written t @ [key_report 0 0x4f, key_report 0 0]"
  proof
    assume x: "x = 0x43"
    show "process_escape_sequence ?s = (0x4f, ?s\<lparr>escape_len := 0\<rparr>) \<and>
      escape_len (keyboard_byte x rest t) = 0 \<and>
      written (keyboard_byte x rest t) = written t @ [key_report 0 0x4f, key_report 0 0]"
      using p kb unfolding x by simp
  qed
  have d: "x = 0x44 \<longrightarrow>
      process_escape_sequence ?s = (0x50, ?s\<lparr>escape_len := 0\<rparr>) \<and>
      escape_len (keyboard_byte x rest t) = 0 \<and>
      written (keyboard_byte x rest t) = written t @ [key_report 0 0x50, key_report 0 0]"
  proof
    assume x: "x = 0x44"
    show "process_escape_sequence ?s = (0x50, ?s\<lparr>escape_len := 0\<rparr>) \<and>
      escape_len (keyboard_byte x rest t) = 0 \<and>
      written (keyboard_byte x rest t) = written t @ [key_report 0 0x50, key_report 0 0]"
      using p kb unfolding x by simp
  qed
  have e: "x \<noteq> 0x41 \<and> x \<noteq> 0x42 \<and> x \<noteq> 0x43 \<and> x \<noteq> 0x44 \<longrightarrow>
      process_escape_sequence ?s = (0, ?s) \<and>
      keyboard_byte x rest t = ?s \<and>
      escape_len (keyboard_byte x rest t) = 3 \<and>
      written (keyboard_byte x rest t) = written t"
    using p kb len by simp
  show ?thesis by (intro conjI len buf a b c d e)
qed


lemma collected_esc_bracket:
  "keyboard_loop [27, 0x5b] init_state =
     init_state\<lparr>escape_buf := [27, 0x5b, 0, 0, 0, 0, 0, 0], escape_len := 2\<rparr>"
  by (simp add: keyboard_byte_def add_to_escape_buf_def process_escape_sequence_def
      init_state_def)

lemma arrow_sequences_resolve_witness:
  "tracker_empty (keyboard_loop [27, 0x5b] init_state) \<and>
   escape_len (keyboard_loop [27, 0x5b] init_state) = 2 \<and>
   length (escape_buf (keyboard_loop [27, 0x5b] init_state)) = 8 \<and>
   escape_buf (keyboard_loop [27, 0x5b] init_state) ! 0 = 27 \<and>
   escape_buf (keyboard_loop [27, 0x5b] init_state) ! 1 = 0x5b \<and>
   escape_len (keyboard_byte 0x41 [] (keyboard_loop [27, 0x5b] init_state)) = 0 \<and>
   written (keyboard_byte 0x41 [] (keyboard_loop [27, 0x5b] init_state)) =
     [key_report 0 0x52, key_report 0 0] \<and>
   escape_len (keyboard_byte 0x5a [] (keyboard_loop [27, 0x5b] init_state)) = 3 \<and>
   written (keyboard_byte 0x5a [] (keyboard_loop [27, 0x5b] init_state)) = []"
proof -
  let ?t = "keyboard_loop [27, 0x5b] init_state"
  have t: "tracker_empty ?t" "escape_len ?t = 2" "length (escape_buf ?t) = 8"
    "escape_buf ?t ! 0 = 27" "escape_buf ?t ! 1 = 0x5b" "written ?t = []"
    unfolding collected_esc_bracket
    by (simp_all add: tracker_empty_init_state) (simp_all add: init_state_def)
  show ?thesis
    using arrow_sequences_resolve [OF t(1-5), of "0x41" "[]"]
      arrow_sequences_resolve [OF t(1-5), of "0x5a" "[]"] t
    by simp
qed

text \<open>
  Claim C1, at the failing input.  The claim asks that an unsupported third byte resets
  the buffer to length 0, as the arrow path and the overflow path of the source do, so
  that the bytes after it are translated again.  The code does not: after
  \<open>ESC '[' 'Z'\<close> the buffer length is 3, not 0; a following \<open>'q'\<close> is added to the
  buffer and no report is written for it, although \<open>'q'\<close> alone gives its two reports;
  and a following complete \<open>ESC '[' 'A'\<close> is buffered too (length 6) and gives no arrow
  report.
\<close>

theorem unsupported_sequence_not_reset:
  "escape_len (snd (process_escape_sequence
      (init_state\<lparr>escape_buf := [27, 0x5b, 0x5a, 0, 0, 0, 0, 0], escape_len := 3\<rparr>))) \<noteq> 0 \<and>
   escape_len (keyboard_loop [27, 0x5b, 0x5a] init_state) = 3 \<and>
   written (keyboard_loop [27, 0x5b, 0x5a] init_state) = [] \<and>
   written (keyboard_loop [27, 0x5b, 0x5a, 0x71] init_state) = [] \<and>
   escape_len (keyboard_loop [27, 0x5b, 0x5a, 0x71] init_state) = 4 \<and>
   written (keyboard_loop [0x71] init_state) = [key_report 0 0x14, key_report 0 0] \<and>
   written (keyboard_loop [27, 0x5b, 0x5a, 27, 0x5b, 0x41] init_state) = [] \<and>
   escape_len (keyboard_loop [27, 0x5b, 0x5a, 27, 0x5b, 0x41] init_state) = 6"
proof -
  have q: "written (keyboard_loop [0x71] init_state) = [key_report 0 0x14, key_report 0 0]"
  proof -
    have "\<not> (0x41 \<le> (0x71 :: byte) \<and> (0x71 :: byte) \<le> 0x5a)"
      "(0x71 :: byte) \<noteq> 27 \<or> [] = [] \<or> hd [] \<noteq> (0x5b :: byte)"
      by simp_all
    from keyboard_byte_not_upper
      [OF tracker_empty_init_state escape_len_init_state this]
    show ?thesis by (simp add: ascii_to_hid_values written_init_state)
  qed
  have rest: "escape_len (snd (process_escape_sequence
      (init_state\<lparr>escape_buf := [27, 0x5b, 0x5a, 0, 0, 0, 0, 0], escape_len := 3\<rparr>))) \<noteq> 0 \<and>
    escape_len (keyboard_loop [27, 0x5b, 0x5a] init_state) = 3 \<and>
    written (keyboard_loop [27, 0x5b, 0x5a] init_state) = [] \<and>
    written (keyboard_loop [27, 0x5b, 0x5a, 0x71] init_state) = [] \<and>
    escape_len (keyboard_loop [27, 0x5b, 0x5a, 0x71] init_state) = 4 \<and>
    written (keyboard_loop [27, 0x5b, 0x5a, 27, 0x5b, 0x41] init_state) = [] \<and>
    escape_len (keyboard_loop [27, 0x5b, 0x5a, 27, 0x5b, 0x41] init_state) = 6"
    by (simp add: keyboard_byte_def add_to_escape_buf_def process_escape_sequence_def
        init_state_def)
  from q rest show ?thesis by blast
qed

section \<open>An arrow sequence across chunk boundaries\<close>

lemma keyboard_byte_esc_lookahead:
  assumes "escape_len s = 0" and "length (escape_buf s) = 8"
  shows "keyboard_byte 27 (0x5b # r) s =
    s\<lparr>escape_buf := (escape_buf s)[0 := 27], escape_len := 1\<rparr>"
  using assms by (simp add: keyboard_byte_def add_to_escape_buf_def)

lemma keyboard_byte_bracket:
  assumes "escape_len s = 1" and "length (escape_buf s) = 8"
  shows "keyboard_byte 0x5b r s =
    s\<lparr>escape_buf := (escape_buf s)[1 := 0x5b], escape_len := 2\<rparr>"
  using assms
  by (simp add: keyboard_byte_def add_to_escape_buf_def process_escape_sequence_def)

lemma keyboard_byte_esc_bracket:
  assumes "escape_len s = 0" and "length (escape_buf s) = 8"
  shows "keyboard_byte 0x5b r (keyboard_byte 27 (0x5b # r') s) =
    s\<lparr>escape_buf := (escape_buf s)[0 := 27, 1 := 0x5b], escape_len := 2\<rparr>"
  using assms by (simp add: keyboard_byte_esc_lookahead keyboard_byte_bracket)

lemma keyboard_byte_up:
  assumes "tracker_empty t" and "escape_len t = 2" and "length (escape_buf t) = 8"
    and "escape_buf t ! 0 = 27" and "escape_buf t ! 1 = 0x5b"
  shows "written (keyboard_byte 0x41 r t) = written t @ [key_report 0 0x52, key_report 0 0]"
  using keyboard_byte_third [OF assms, of "0x41" r]
    process_escape_sequence_three [OF third_byte_state(1-3) [OF assms(2-5), of "0x41"]]
    third_byte_state(4) [OF assms(2-5), of "0x41"]
  by simp

lemma up_after_esc_bracket:
  assumes "tracker_empty s" and "escape_len s = 0" and "length (escape_buf s) = 8"
  shows "written (keyboard_byte 0x41 r
      (s\<lparr>escape_buf := (escape_buf s)[0 := 27, 1 := 0x5b], escape_len := 2\<rparr>)) =
    written s @ [key_report 0 0x52, key_report 0 0]"
proof -
  let ?t = "s\<lparr>escape_buf := (escape_buf s)[0 := 27, 1 := 0x5b], escape_len := 2\<rparr>"
  have "tracker_empty ?t" "escape_len ?t = 2" "length (escape_buf ?t) = 8"
    "escape_buf ?t ! 0 = 27" "escape_buf ?t ! 1 = 0x5b"
    using assms by simp_all
  from keyboard_byte_up [OF this, of r] show ?thesis by simp
qed

lemma esc_alone:
  assumes "tracker_empty s" and "escape_len s = 0"
  shows "keyboard_byte 27 [] s =
    s\<lparr>written := written s @ [key_report 0 0x29, key_report 0 0]\<rparr>"
proof -
  have "\<not> (0x41 \<le> (27 :: byte) \<and> (27 :: byte) \<le> 0x5a)" by simp
  from keyboard_byte_not_upper [OF assms this, of "[]"] show ?thesis
    by (simp add: ascii_to_hid_values)
qed

lemma bracket_alone:
  assumes "tracker_empty s" and "escape_len s = 0"
  shows "keyboard_byte 0x5b r s =
    s\<lparr>written := written s @ [key_report 0 0x2f, key_report 0 0]\<rparr>"
proof -
  have "\<not> (0x41 \<le> (0x5b :: byte) \<and> (0x5b :: byte) \<le> 0x5a)" by simp
  from keyboard_byte_not_upper [OF assms this, of r] show ?thesis
    by (simp add: ascii_to_hid_values)
qed

lemma letter_A_alone:
  assumes "tracker_empty s" and "escape_len s = 0"
  shows "keyboard_byte 0x41 r s =
    s\<lparr>written := written s @ [key_report 0x02 0x04, key_report 0 0]\<rparr>"
  using keyboard_byte_upper [OF assms, of "0x41" r] by (simp add: ascii_to_hid_values)

lemma split_after_esc:
  assumes "tracker_empty s" and "escape_len s = 0"
  shows "written (keyboard_chunks [[27], [0x5b, 0x41]] s) =
    written s @ [key_report 0 0x29, key_report 0 0, key_report 0 0x2f, key_report 0 0,
      key_report 0x02 0x04, key_report 0 0]"
proof -
  let ?s1 = "s\<lparr>written := written s @ [key_report 0 0x29, key_report 0 0]\<rparr>"
  let ?s2 = "?s1\<lparr>written := written ?s1 @ [key_report 0 0x2f, key_report 0 0]\<rparr>"
  have 1: "keyboard_byte 27 [] s = ?s1" using assms by (rule esc_alone)
  have e1: "tracker_empty ?s1" "escape_len ?s1 = 0" using assms by simp_all
  have 2: "keyboard_byte 0x5b [0x41] ?s1 = ?s2" using e1 by (rule bracket_alone)
  have e2: "tracker_empty ?s2" "escape_len ?s2 = 0" using assms by simp_all
  have 3: "keyboard_byte 0x41 [] ?s2 =
      ?s2\<lparr>written := written ?s2 @ [key_report 0x02 0x04, key_report 0 0]\<rparr>"
    using e2 by (rule letter_A_alone)
  show ?thesis using 3 by (simp add: keyboard_def 1 2)
qed


text \<open>
  Claim C2, as amended.  From a state with an empty tracker and no escape sequence being
  collected: when \<open>ESC '[' 'A'\<close> arrives in one chunk, or in two chunks split after
  \<open>ESC '['\<close>, the program writes exactly the press report of usage \<open>0x52\<close> and the
  release report, and nothing after \<open>ESC\<close> or after \<open>ESC '['\<close>.  When the chunk ends
  with \<open>ESC\<close>, the byte after it is not in the chunk, so \<open>ESC\<close> is reported as the
  Escape key, and \<open>'['\<close> and \<open>'A'\<close> of the next chunk are reported as characters.
\<close>

theorem up_arrow_across_chunks:
  assumes "tracker_empty s" and "escape_len s = 0" and "length (escape_buf s) = 8"
  shows "written (keyboard_chunks [[27, 0x5b, 0x41]] s) =
      written s @ [key_report 0 0x52, key_report 0 0] \<and>
    written (keyboard_chunks [[27, 0x5b], [0x41]] s) =
      written s @ [key_report 0 0x52, key_report 0 0] \<and>
    written (keyboard_iter 1 [27, 0x5b, 0x41] s) = written s \<and>
    written (keyboard_iter 2 [27, 0x5b, 0x41] s) = written s \<and>
    written (keyboard_chunks [[27, 0x5b]] s) = written s \<and>
    written (keyboard_chunks [[27], [0x5b, 0x41]] s) =
      written s @ [key_report 0 0x29, key_report 0 0, key_report 0 0x2f, key_report 0 0,
        key_report 0x02 0x04, key_report 0 0]"
proof -
  note eb = keyboard_byte_esc_bracket [OF assms(2,3)]
  note up = up_after_esc_bracket [OF assms]
  have one: "written (keyboard_chunks [[27, 0x5b, 0x41]] s) =
      written s @ [key_report 0 0x52, key_report 0 0]"
    using up by (simp add: keyboard_def eb)
  have two: "written (keyboard_chunks [[27, 0x5b], [0x41]] s) =
      written s @ [key_report 0 0x52, key_report 0 0]"
    using up by (simp add: keyboard_def eb)
  have i1: "written (keyboard_iter 1 [27, 0x5b, 0x41] s) = written s"
    using assms(2,3) by (simp add: keyboard_byte_esc_lookahead)
  have i2: "written (keyboard_iter 2 [27, 0x5b, 0x41] s) = written s"
    by (simp add: numeral_2_eq_2 eb)
  have i3: "written (keyboard_chunks [[27, 0x5b]] s) = written s"
    by (simp add: keyboard_def eb)
  show ?thesis
    by (intro conjI one two i1 i2 i3 split_after_esc [OF assms(1,2)])
qed

lemma escape_buf_init_state: "length (escape_buf init_state) = 8"
  by (simp add: init_state_def)

theorem up_arrow_across_chunks_witness:
  "tracker_empty init_state \<and> escape_len init_state = 0 \<and>
   length (escape_buf init_state) = 8 \<and>
   written (keyboard_chunks [[27, 0x5b, 0x41]] init_state) =
     [key_report 0 0x52, key_report 0 0] \<and>
   written (keyboard_chunks [[27, 0x5b], [0x41]] init_state) =
     [key_report 0 0x52, key_report 0 0] \<and>
   written (keyboard_chunks [[27, 0x5b]] init_state) = []"
  using up_arrow_across_chunks
    [OF tracker_empty_init_state escape_len_init_state escape_buf_init_state]
  by (simp add: tracker_empty_init_state escape_len_init_state escape_buf_init_state
      written_init_state)

text \<open>
  The claim as stated fails when the chunk boundary falls after \<open>ESC\<close>: six reports are
  written, the first two for the Escape key, and none carries usage \<open>0x52\<close>.
\<close>

theorem split_after_esc_is_not_an_arrow:
  "written (keyboard_chunks [[27]] init_state) = [key_report 0 0x29, key_report 0 0] \<and>
   written (keyboard_chunks [[27], [0x5b, 0x41]] init_state) =
     [key_report 0 0x29, key_report 0 0, key_report 0 0x2f, key_report 0 0,
      key_report 0x02 0x04, key_report 0 0] \<and>
   written (keyboard_chunks [[27], [0x5b, 0x41]] init_state) \<noteq>
     [key_report 0 0x52, key_report 0 0]"
proof -
  have "keyboard_byte 27 [] init_state =
      init_state\<lparr>written := written init_state @ [key_report 0 0x29, key_report 0 0]\<rparr>"
    using tracker_empty_init_state escape_len_init_state by (rule esc_alone)
  then have "written (keyboard_chunks [[27]] init_state) = [key_report 0 0x29, key_report 0 0]"
    by (simp add: keyboard_def written_init_state)
  then show ?thesis
    using split_after_esc [OF tracker_empty_init_state escape_len_init_state]
    by (simp add: written_init_state)
qed

section \<open>The key-state tracker\<close>

lemma key_present_iff:
  "key_present ks i k c \<longleftrightarrow> (\<exists>j. i \<le> j \<and> j < i + k \<and> ks ! j = c)"
proof (induction k arbitrary: i)
  case 0
  show ?case by simp
next
  case (Suc k)
  show ?case
  proof (cases "ks ! i = c")
    case True
    then show ?thesis by auto
  next
    case False
    have "(\<exists>j. Suc i \<le> j \<and> j < Suc i + k \<and> ks ! j = c) \<longleftrightarrow>
        (\<exists>j. i \<le> j \<and> j < i + Suc k \<and> ks ! j = c)"
      using False by (metis Suc_leD Suc_leI add_Suc add_Suc_right le_neq_implies_less)
    with False Suc.IH [of "Suc i"] show ?thesis by simp
  qed
qed

lemma key_present_take:
  assumes "n \<le> length ks"
  shows "key_present ks 0 n c \<longleftrightarrow> c \<in> set (take n ks)"
  using assms by (auto simp: key_present_iff in_set_conv_nth)


lemma add_key_full: "num_keys_pressed s \<ge> 6 \<Longrightarrow> add_key c s = s"
  by (simp add: add_key_def)

lemma add_key_present:
  assumes "num_keys_pressed s \<le> length (key_codes s)"
    and "c \<in> set (take (num_keys_pressed s) (key_codes s))"
  shows "add_key c s = s"
  using assms by (simp add: add_key_def key_present_take)

lemma take_Suc_update:
  assumes "n < length ks"
  shows "take (Suc n) (ks[n := c]) = take n ks @ [c]"
  using assms by (simp add: take_Suc_conv_app_nth)

lemma add_key_new:
  assumes "num_keys_pressed s < 6" and "length (key_codes s) = 6"
    and "c \<notin> set (take (num_keys_pressed s) (key_codes s))"
  shows "add_key c s = s\<lparr>key_codes := (key_codes s)[num_keys_pressed s := c],
      num_keys_pressed := Suc (num_keys_pressed s)\<rparr>"
  using assms by (simp add: add_key_def key_present_take)

text \<open>What one call of \<open>add_key\<close> does to a tracker with six slots and at most six keys.\<close>

lemma add_key_step:
  assumes "length (key_codes s) = 6" and "num_keys_pressed s \<le> 6"
  shows "length (key_codes (add_key c s)) = 6"
    and "num_keys_pressed (add_key c s) \<le> 6"
    and "num_keys_pressed s \<le> num_keys_pressed (add_key c s)"
    and "set (take (num_keys_pressed s) (key_codes s)) \<subseteq>
      set (take (num_keys_pressed (add_key c s)) (key_codes (add_key c s)))"
    and "num_keys_pressed (add_key c s) = 6 \<or>
      c \<in> set (take (num_keys_pressed (add_key c s)) (key_codes (add_key c s)))"
proof -
  consider (full) "num_keys_pressed s = 6"
    | (present) "num_keys_pressed s < 6" "c \<in> set (take (num_keys_pressed s) (key_codes s))"
    | (new) "num_keys_pressed s < 6" "c \<notin> set (take (num_keys_pressed s) (key_codes s))"
    using assms(2) by fastforce
  then have "length (key_codes (add_key c s)) = 6 \<and>
    num_keys_pressed (add_key c s) \<le> 6 \<and>
    num_keys_pressed s \<le> num_keys_pressed (add_key c s) \<and>
    set (take (num_keys_pressed s) (key_codes s)) \<subseteq>
      set (take (num_keys_pressed (add_key c s)) (key_codes (add_key c s))) \<and>
    (num_keys_pressed (add_key c s) = 6 \<or>
      c \<in> set (take (num_keys_pressed (add_key c s)) (key_codes (add_key c s))))"
  proof cases
    case full
    then show ?thesis using assms by (simp add: add_key_full)
  next
    case present
    then have "add_key c s = s" using assms by (simp add: add_key_present)
    then show ?thesis using assms present by simp
  next
    case new
    then show ?thesis
      using assms add_key_new [OF new(1) assms(1) new(2)]
      by (auto simp: take_Suc_update)
  qed
  then show "length (key_codes (add_key c s)) = 6"
    and "num_keys_pressed (add_key c s) \<le> 6"
    and "num_keys_pressed s \<le> num_keys_pressed (add_key c s)"
    and "set (take (num_keys_pressed s) (key_codes s)) \<subseteq>
      set (take (num_keys_pressed (add_key c s)) (key_codes (add_key c s)))"
    and "num_keys_pressed (add_key c s) = 6 \<or>
      c \<in> set (take (num_keys_pressed (add_key c s)) (key_codes (add_key c s)))"
    by blast+
qed

lemma press_all_inv:
  assumes "length (key_codes s) = 6" and "num_keys_pressed s \<le> 6"
  shows "length (key_codes (press_all cs s)) = 6 \<and>
    num_keys_pressed (press_all cs s) \<le> 6 \<and>
    num_keys_pressed s \<le> num_keys_pressed (press_all cs s) \<and>
    set (take (num_keys_pressed s) (key_codes s)) \<subseteq>
      set (take (num_keys_pressed (press_all cs s)) (key_codes (press_all cs s))) \<and>
    (num_keys_pressed (press_all cs s) = 6 \<or>
      set cs \<subseteq> set (take (num_keys_pressed (press_all cs s)) (key_codes (press_all cs s))))"
  using assms
proof (induction cs arbitrary: s)
  case Nil
  then show ?case by simp
next
  case (Cons c cs)
  note st = add_key_step [OF Cons.prems, of c]
  note ih = Cons.IH [OF st(1,2)]
  let ?f = "press_all cs (add_key c s)"
  have "num_keys_pressed ?f = 6 \<or>
      insert c (set cs) \<subseteq> set (take (num_keys_pressed ?f) (key_codes ?f))"
  proof (cases "num_keys_pressed ?f = 6")
    case True
    then show ?thesis by simp
  next
    case False
    then have "num_keys_pressed (add_key c s) \<noteq> 6" using ih by linarith
    then have "c \<in> set (take (num_keys_pressed (add_key c s)) (key_codes (add_key c s)))"
      using st(5) by simp
    then have "c \<in> set (take (num_keys_pressed ?f) (key_codes ?f))" using ih by blast
    moreover have "set cs \<subseteq> set (take (num_keys_pressed ?f) (key_codes ?f))"
      using ih False by simp
    ultimately show ?thesis by simp
  qed
  moreover have "num_keys_pressed s \<le> num_keys_pressed ?f" using st(3) ih by linarith
  moreover have "set (take (num_keys_pressed s) (key_codes s)) \<subseteq>
      set (take (num_keys_pressed ?f) (key_codes ?f))"
    using st(4) ih by blast
  ultimately show ?case using ih by simp
qed

lemma press_all_six:
  assumes "length (key_codes s) = 6" and "num_keys_pressed s \<le> 6" and "6 \<le> card (set cs)"
  shows "num_keys_pressed (press_all cs s) = 6"
proof (rule ccontr)
  let ?f = "press_all cs s"
  assume n: "num_keys_pressed ?f \<noteq> 6"
  note inv = press_all_inv [OF assms(1,2), of cs]
  from n inv have "set cs \<subseteq> set (take (num_keys_pressed ?f) (key_codes ?f))" by simp
  then have "card (set cs) \<le> card (set (take (num_keys_pressed ?f) (key_codes ?f)))"
    by (simp add: card_mono)
  also have "\<dots> \<le> length (take (num_keys_pressed ?f) (key_codes ?f))"
    by (rule card_length)
  also have "\<dots> \<le> num_keys_pressed ?f" by simp
  finally have "6 \<le> num_keys_pressed ?f" using assms(3) by linarith
  with n inv show False by linarith
qed

text \<open>
  Claim C5.  In a tracker with six slots holding at most six keys, after a sequence of
  \<open>add_key\<close> calls with more than 6 distinct codes (nonzero or not) and no release in
  between, \<open>num_keys_pressed\<close> is exactly 6; once 6 distinct codes have been pressed,
  every further press leaves the whole state unchanged; and a press of a code that is
  already in a held slot leaves the state unchanged.
\<close>

theorem seventh_press_is_dropped:
  assumes "length (key_codes s) = 6" and "num_keys_pressed s \<le> 6"
  shows "(6 < card (set cs) \<longrightarrow> num_keys_pressed (press_all cs s) = 6) \<and>
    (6 \<le> card (set cs) \<longrightarrow> add_key c (press_all cs s) = press_all cs s) \<and>
    (c \<in> set (take (num_keys_pressed s) (key_codes s)) \<longrightarrow> add_key c s = s)"
proof (intro conjI impI)
  assume "6 < card (set cs)"
  then show "num_keys_pressed (press_all cs s) = 6"
    using press_all_six [OF assms, of cs] by simp
next
  assume "6 \<le> card (set cs)"
  then have "num_keys_pressed (press_all cs s) = 6" by (rule press_all_six [OF assms])
  then show "add_key c (press_all cs s) = press_all cs s" by (simp add: add_key_full)
next
  assume "c \<in> set (take (num_keys_pressed s) (key_codes s))"
  then show "add_key c s = s" using assms by (simp add: add_key_present)
qed

lemma card_seven: "card (set [1, 2, 3, 4, 5, 6, 7 :: byte]) = 7"
  by simp

lemma press_seven:
  "press_all [1, 2, 3, 4, 5, 6, 7] init_state =
    init_state\<lparr>key_codes := [1, 2, 3, 4, 5, 6], num_keys_pressed := 6\<rparr>"
  by (simp add: add_key_def init_state_def)

theorem seventh_press_is_dropped_witness:
  "length (key_codes init_state) = 6 \<and> num_keys_pressed init_state \<le> 6 \<and>
   6 < card (set [1, 2, 3, 4, 5, 6, 7 :: byte]) \<and>
   num_keys_pressed (press_all [1, 2, 3, 4, 5, 6, 7] init_state) = 6 \<and>
   key_codes (press_all [1, 2, 3, 4, 5, 6, 7] init_state) = [1, 2, 3, 4, 5, 6] \<and>
   add_key 8 (press_all [1, 2, 3, 4, 5, 6, 7] init_state) =
     press_all [1, 2, 3, 4, 5, 6, 7] init_state"
proof -
  have a: "length (key_codes init_state) = 6" "num_keys_pressed init_state \<le> 6"
    by (simp_all add: init_state_def)
  show ?thesis
    using seventh_press_is_dropped [OF a, of "[1, 2, 3, 4, 5, 6, 7]" 8] a card_seven
    by (simp add: press_seven del: press_all.simps)
qed

lemma remove_from_skip:
  assumes "\<forall>j. i \<le> j \<and> j < i + m \<longrightarrow> key_codes s ! j \<noteq> c"
  shows "remove_from (m + k) i c s = remove_from k (i + m) c s"
  using assms
proof (induction m arbitrary: i)
  case 0
  show ?case by simp
next
  case (Suc m)
  have "key_codes s ! i \<noteq> c" using Suc.prems by simp
  moreover have "remove_from (m + k) (Suc i) c s = remove_from k (Suc i + m) c s"
    using Suc.prems by (intro Suc.IH) simp
  ultimately show ?case by simp
qed

lemma remove_key_last:
  assumes "num_keys_pressed s = Suc n"
    and "c \<notin> set (take n (key_codes s))" and "n < length (key_codes s)"
    and "key_codes s ! n = c"
  shows "remove_key c s = s\<lparr>key_codes := (key_codes s)[n := 0], num_keys_pressed := n\<rparr>"
proof -
  have "\<forall>j. 0 \<le> j \<and> j < 0 + n \<longrightarrow> key_codes s ! j \<noteq> c"
    using assms(2,3) by (auto simp: in_set_conv_nth)
  from remove_from_skip [OF this, of "Suc 0"]
  have "remove_key c s = remove_from (Suc 0) n c s"
    using assms(1) by (simp add: remove_key_def)
  then show ?thesis using assms(1,4) by simp
qed

lemma tracker_inv_next_slot:
  assumes "tracker_inv s" and "num_keys_pressed s < 6"
  shows "key_codes s ! num_keys_pressed s = 0"
proof -
  let ?n = "num_keys_pressed s"
  have len: "length (key_codes s) = 6"
    and d: "drop ?n (key_codes s) = replicate (6 - ?n) 0"
    using assms(1) by (simp_all add: tracker_inv_def)
  have "key_codes s ! ?n = drop ?n (key_codes s) ! 0"
    using assms(2) len by simp
  also have "\<dots> = 0" unfolding d using assms(2) by simp
  finally show ?thesis .
qed

text \<open>
  Claim C6.  In a tracker that satisfies its invariants and holds fewer than 6 keys,
  \<open>add_key\<close> of a code that is not held followed by \<open>remove_key\<close> of the same code gives
  back exactly the state before: the same slots in the same order, the vacated slot zero
  again, the same count and modifier byte.
\<close>

theorem press_then_release_restores:
  assumes "tracker_inv s" and "num_keys_pressed s < 6"
    and "c \<notin> set (take (num_keys_pressed s) (key_codes s))"
  shows "remove_key c (add_key c s) = s"
proof -
  let ?n = "num_keys_pressed s"
  have len: "length (key_codes s) = 6" using assms(1) by (simp add: tracker_inv_def)
  let ?s' = "s\<lparr>key_codes := (key_codes s)[?n := c], num_keys_pressed := Suc ?n\<rparr>"
  have add: "add_key c s = ?s'" using assms(2) len assms(3) by (rule add_key_new)
  have "remove_key c ?s' =
      ?s'\<lparr>key_codes := (key_codes ?s')[?n := 0], num_keys_pressed := ?n\<rparr>"
    using assms(2,3) len by (intro remove_key_last) simp_all
  also have "\<dots> = s\<lparr>key_codes := (key_codes s)[?n := 0]\<rparr>" by simp
  also have "(key_codes s)[?n := 0] = key_codes s"
    using tracker_inv_next_slot [OF assms(1,2)] by (metis list_update_id)
  finally show ?thesis using add by simp
qed

lemma take_two_Cons: "take 2 (a # b # xs) = [a, b]"
  by (simp add: numeral_2_eq_2)

lemma drop_two_Cons: "drop 2 (a # b # xs) = xs"
  by (simp add: numeral_2_eq_2)

lemma replicate_4: "replicate 4 x = [x, x, x, x]"
  by (simp add: numeral_eq_Suc)

lemma tracker_inv_two_keys:
  "tracker_inv (init_state\<lparr>key_codes := [0x04, 0x05, 0, 0, 0, 0], num_keys_pressed := 2\<rparr>)"
  by (simp add: tracker_inv_def init_state_def take_two_Cons drop_two_Cons replicate_4)

theorem press_then_release_restores_witness:
  "tracker_inv (init_state\<lparr>key_codes := [0x04, 0x05, 0, 0, 0, 0], num_keys_pressed := 2\<rparr>) \<and>
   remove_key 0x06
     (add_key 0x06
       (init_state\<lparr>key_codes := [0x04, 0x05, 0, 0, 0, 0], num_keys_pressed := 2\<rparr>)) =
   init_state\<lparr>key_codes := [0x04, 0x05, 0, 0, 0, 0], num_keys_pressed := 2\<rparr>"
  using press_then_release_restores [OF tracker_inv_two_keys, of "0x06"] tracker_inv_two_keys
  by (simp add: take_two_Cons)

section \<open>Output events and the report descriptor\<close>

text \<open>
  Claim C7.  For every output event, \<open>handle_output\<close> gives the LED flags, the second
  payload byte, exactly when the report type is \<open>UHID_OUTPUT_REPORT\<close>, the payload
  length is 2 and the first payload byte is 2; in every other case it gives nothing.
  \<open>event\<close> passes the payload of an output event to it and returns 0.
\<close>

theorem led_flags_decoded_iff:
  "(handle_output req = Some flags \<longleftrightarrow>
      out_rtype req = UHID_OUTPUT_REPORT \<and> out_size req = 2 \<and> out_data req 0 = 2 \<and>
      flags = out_data req 1) \<and>
   (handle_output req = None \<longleftrightarrow>
      \<not> (out_rtype req = UHID_OUTPUT_REPORT \<and> out_size req = 2 \<and> out_data req 0 = 2)) \<and>
   event (ReadEvent (UHID_OUTPUT req)) = (0, handle_output req)"
  by (auto simp: handle_output_def event_def)

theorem led_flags_decoded_iff_witness:
  "handle_output \<lparr>out_data = (\<lambda>i. if i = 0 then 2 else 5), out_size = 2,
      out_rtype = UHID_OUTPUT_REPORT\<rparr> = Some 5 \<and>
   handle_output \<lparr>out_data = (\<lambda>i. if i = 0 then 2 else 5), out_size = 3,
      out_rtype = UHID_OUTPUT_REPORT\<rparr> = None"
  using led_flags_decoded_iff
    [of "\<lparr>out_data = (\<lambda>i. if i = 0 then 2 else 5), out_size = 2,
      out_rtype = UHID_OUTPUT_REPORT\<rparr>" 5]
    led_flags_decoded_iff
    [of "\<lparr>out_data = (\<lambda>i. if i = 0 then 2 else 5), out_size = 3,
      out_rtype = UHID_OUTPUT_REPORT\<rparr>" 5]
  by simp

lemma length_rdesc: "length rdesc = 45"
  by (simp add: rdesc_def)

text \<open>
  Claim C9, as amended.  Whatever the state and the outcome of the write, \<open>create\<close> hands
  one event to the device: the create event with the name \<open>test-uhid-device\<close>, the
  report descriptor \<open>05 01 09 06 a1 01 ... 81 00 c0\<close> of 45 bytes with \<open>rd_size\<close> 45,
  bus \<open>BUS_USB\<close>, vendor \<open>0x15d9\<close>, product \<open>0x0a37\<close>, version 0 and country 0.  The
  descriptor is a constant: no function of the program has it in its state.
\<close>

theorem create_event_contents:
  "written (snd (create r s)) = written s @
     [UHID_CREATE \<lparr>name = ''test-uhid-device'', phys = [], uniq = [],
        rd_data =
          [0x05, 0x01, 0x09, 0x06, 0xa1, 0x01, 0x05, 0x07, 0x19, 0xe0, 0x29, 0xe7,
           0x15, 0x00, 0x25, 0x01, 0x75, 0x01, 0x95, 0x08, 0x81, 0x02, 0x95, 0x01,
           0x75, 0x08, 0x81, 0x01, 0x95, 0x06, 0x75, 0x08, 0x15, 0x00, 0x25, 0x65,
           0x05, 0x07, 0x19, 0x00, 0x29, 0x65, 0x81, 0x00, 0xc0],
        rd_size = 45, bus = BUS_USB, vendor = 0x15d9, product = 0x0a37, version = 0,
        country = 0\<rparr>] \<and>
   length rdesc = 45"
  by (cases r) (simp_all add: create_def uhid_write_def create_event_def length_rdesc,
    simp_all add: rdesc_def)

text \<open>
  The claim as stated fails on the length: the descriptor of the create event has 45
  bytes, not 43.
\<close>

theorem rdesc_is_not_43_bytes:
  "written (snd (create WriteFull init_state)) = [create_event] \<and>
   create_event =
     UHID_CREATE \<lparr>name = ''test-uhid-device'', phys = [], uniq = [],
        rd_data = rdesc, rd_size = 45, bus = BUS_USB, vendor = 0x15d9, product = 0x0a37,
        version = 0, country = 0\<rparr> \<and>
   length rdesc \<noteq> 43"
  by (simp add: create_def uhid_write_def create_event_def length_rdesc init_state_def)

section \<open>The dispatch loop and the destroy event\<close>

lemma written_add_key [simp]: "written (add_key c s) = written s"
  by (simp add: add_key_def)

lemma written_remove_from [simp]: "written (remove_from k i c s) = written s"
  by (induction k i c s rule: remove_from.induct) (simp_all add: Let_def)

lemma written_remove_key [simp]: "written (remove_key c s) = written s"
  by (simp add: remove_key_def)

lemma written_send_event:
  "\<exists>r. written (send_event s) = written s @ [UHID_INPUT r]"
  by (simp add: send_event_def Let_def)

lemma destroys_send_event [simp]:
  "filter is_destroy (written (send_event s)) = filter is_destroy (written s)"
  using written_send_event [of s] by (auto simp: is_destroy_def)

lemma destroys_press_release [simp]:
  "filter is_destroy (written (press_release c k s)) = filter is_destroy (written s)"
  by (simp add: press_release_def Let_def)

lemma written_process_escape_sequence [simp]:
  "written (snd (process_escape_sequence s)) = written s"
  using process_escape_sequence_cases [of s] by auto

lemma destroys_keyboard_byte [simp]:
  "filter is_destroy (written (keyboard_byte c rest s)) = filter is_destroy (written s)"
proof (cases "escape_len s > 0")
  case True
  obtain k s' where p: "process_escape_sequence (add_to_escape_buf c s) = (k, s')"
    by (cases "process_escape_sequence (add_to_escape_buf c s)")
  then have "written s' = written s"
    using written_process_escape_sequence [of "add_to_escape_buf c s"] by simp
  then show ?thesis using True p by (simp add: keyboard_byte_def)
next
  case False
  then show ?thesis by (simp add: keyboard_byte_def)
qed

lemma destroys_keyboard_loop [simp]:
  "filter is_destroy (written (keyboard_loop buf s)) = filter is_destroy (written s)"
  by (induction buf arbitrary: s) simp_all

lemma destroys_keyboard [simp]:
  "filter is_destroy (written (snd (keyboard r s))) = filter is_destroy (written s)"
  by (cases r) (simp_all add: keyboard_def)

lemma destroys_wakeup_step [simp]:
  "filter is_destroy (written (snd (wakeup_step w s))) = filter is_destroy (written s)"
proof -
  obtain ret s' where k: "keyboard (stdin_data w) s = (ret, s')"
    by (cases "keyboard (stdin_data w) s")
  then have "filter is_destroy (written s') = filter is_destroy (written s)"
    using destroys_keyboard [of "stdin_data w" s] by simp
  then show ?thesis using k by (simp add: wakeup_step_def)
qed

text \<open>While the loop runs it only passes the state on.\<close>

lemma main_loop_append:
  assumes "main_loop pre s = None"
  shows "\<exists>s1. filter is_destroy (written s1) = filter is_destroy (written s) \<and>
    (\<forall>ws. main_loop (pre @ ws) s = main_loop ws s1)"
  using assms
proof (induction pre arbitrary: s)
  case Nil
  show ?case by auto
next
  case (Cons w pre)
  obtain b s' where st: "wakeup_step w s = (b, s')" by (cases "wakeup_step w s")
  with Cons.prems have b: "\<not> b" and rest: "main_loop pre s' = None"
    by (auto split: bool.splits)
  from Cons.IH [OF rest] obtain s1
    where s1: "filter is_destroy (written s1) = filter is_destroy (written s')"
      and run: "\<forall>ws. main_loop (pre @ ws) s' = main_loop ws s1" by blast
  have "filter is_destroy (written s') = filter is_destroy (written s)"
    using destroys_wakeup_step [of w s] st by simp
  with s1 run st b show ?case by auto
qed

lemma wakeup_step_read_hup:
  assumes "0 \<le> poll_ret w" and "\<not> stdin_hup w" and "\<not> uhid_hup w"
    and "uhid_in w" and "uhid_data w = ReadHup"
    and "\<not> stdin_in w \<or> (\<exists>buf. buf \<noteq> [] \<and> stdin_data w = StdinBytes buf)"
  shows "fst (wakeup_step w s)"
proof -
  have "fst (event (uhid_data w)) \<noteq> 0" using assms(5) by (simp add: event_def EFAULT_def)
  then show ?thesis
    using assms by (auto simp: wakeup_step_def keyboard_def split: prod.splits)
qed


text \<open>
  Claim C8.  The program has created the device and is waiting in \<open>poll\<close> after the
  wakeups \<open>pre\<close>.  In the next wakeup \<open>event\<close> reads 0 bytes from the device (\<open>poll\<close>
  succeeded, no hang-up bit is set, the device is readable, and \<open>keyboard\<close>, if called
  first, got input).  Then \<open>main\<close> ends, whatever wakeups might follow, with exit status
  \<open>EXIT_SUCCESS\<close>, and the last event it writes is the destroy event, the only destroy
  event of the log.  Inside, \<open>event\<close> tells the loop to stop by returning \<open>-EFAULT\<close>;
  the status \<open>main\<close> exits with does not depend on it.
\<close>

theorem read_hup_ends_with_one_destroy:
  assumes "wakeups e = pre @ w # post"
    and "main (e\<lparr>wakeups := pre\<rparr>) = None"
    and "0 \<le> poll_ret w" and "\<not> stdin_hup w" and "\<not> uhid_hup w"
    and "uhid_in w" and "uhid_data w = ReadHup"
    and "\<not> stdin_in w \<or> (\<exists>buf. buf \<noteq> [] \<and> stdin_data w = StdinBytes buf)"
  shows "\<exists>log. main e = Some (EXIT_SUCCESS, log @ [UHID_DESTROY]) \<and>
    filter is_destroy log = [] \<and> event (uhid_data w) = (- EFAULT, None)"
proof -
  obtain ret s0 where c: "create (create_write e) init_state = (ret, s0)"
    by (cases "create (create_write e) init_state")
  from assms(2) c have pre: "\<not> help_requested e" "open_ok e" "ret = 0"
    and run: "main_loop pre s0 = None"
    by (auto simp: main_def split: if_splits option.splits)
  have "written s0 = [create_event]"
    using c by (cases "create_write e") (auto simp: create_def uhid_write_def init_state_def)
  then have d0: "filter is_destroy (written s0) = []"
    by (simp add: is_destroy_def create_event_def)
  from main_loop_append [OF run] obtain s1
    where d1: "filter is_destroy (written s1) = filter is_destroy (written s0)"
      and app: "\<forall>ws. main_loop (pre @ ws) s0 = main_loop ws s1" by blast
  obtain b s2 where st: "wakeup_step w s1 = (b, s2)" by (cases "wakeup_step w s1")
  have b: "b" using wakeup_step_read_hup [OF assms(3-8), of s1] st by simp
  have d2: "filter is_destroy (written s2) = []"
    using destroys_wakeup_step [of w s1] st d1 d0 by simp
  have "main_loop (wakeups e) s0 = Some s2"
    using assms(1) app st b by simp
  then have "main e = Some (EXIT_SUCCESS, written s2 @ [UHID_DESTROY])"
    using pre c by (cases "destroy_write e") (simp_all add: main_def destroy_def uhid_write_def)
  moreover have "event (uhid_data w) = (- EFAULT, None)"
    using assms(7) by (simp add: event_def)
  ultimately show ?thesis using d2 by blast
qed


lemma q_after_create:
  "keyboard_byte 0x71 [] (init_state\<lparr>written := [create_event]\<rparr>) =
    init_state\<lparr>written := [create_event, key_report 0 0x14, key_report 0 0]\<rparr>"
proof -
  have "tracker_empty (init_state\<lparr>written := [create_event]\<rparr>)"
    "escape_len (init_state\<lparr>written := [create_event]\<rparr>) = 0"
    "\<not> (0x41 \<le> (0x71 :: byte) \<and> (0x71 :: byte) \<le> 0x5a)"
    "(0x71 :: byte) \<noteq> 27 \<or> [] = [] \<or> hd [] \<noteq> (0x5b :: byte)"
    by (simp_all add: tracker_empty_init_state escape_len_init_state)
  from keyboard_byte_not_upper [OF this] show ?thesis
    by (simp add: ascii_to_hid_values)
qed

theorem read_hup_ends_with_one_destroy_witness:
  "main
     \<lparr>help_requested = False, open_ok = True, create_write = WriteFull,
      wakeups = [\<lparr>poll_ret = 1, stdin_hup = False, uhid_hup = False, stdin_in = True,
        uhid_in = False, stdin_data = StdinBytes [0x71], uhid_data = ReadEvent UHID_START\<rparr>],
      destroy_write = WriteFull\<rparr> = None \<and>
   (\<exists>log. main
     \<lparr>help_requested = False, open_ok = True, create_write = WriteFull,
      wakeups = [\<lparr>poll_ret = 1, stdin_hup = False, uhid_hup = False, stdin_in = True,
        uhid_in = False, stdin_data = StdinBytes [0x71], uhid_data = ReadEvent UHID_START\<rparr>,
       \<lparr>poll_ret = 1, stdin_hup = False, uhid_hup = False, stdin_in = False,
        uhid_in = True, stdin_data = StdinBytes [], uhid_data = ReadHup\<rparr>],
      destroy_write = WriteFull\<rparr> = Some (EXIT_SUCCESS, log @ [UHID_DESTROY]) \<and>
     filter is_destroy log = []) \<and>
   main
     \<lparr>help_requested = False, open_ok = True, create_write = WriteFull,
      wakeups = [\<lparr>poll_ret = 1, stdin_hup = False, uhid_hup = False, stdin_in = True,
        uhid_in = False, stdin_data = StdinBytes [0x71], uhid_data = ReadEvent UHID_START\<rparr>,
       \<lparr>poll_ret = 1, stdin_hup = False, uhid_hup = False, stdin_in = False,
        uhid_in = True, stdin_data = StdinBytes [], uhid_data = ReadHup\<rparr>],
      destroy_write = WriteFull\<rparr> =
     Some (EXIT_SUCCESS, [create_event, key_report 0 0x14, key_report 0 0, UHID_DESTROY])"
proof -
  let ?w1 = "\<lparr>poll_ret = 1, stdin_hup = False, uhid_hup = False, stdin_in = True,
        uhid_in = False, stdin_data = StdinBytes [0x71], uhid_data = ReadEvent UHID_START\<rparr>"
  let ?w2 = "\<lparr>poll_ret = 1, stdin_hup = False, uhid_hup = False, stdin_in = False,
        uhid_in = True, stdin_data = StdinBytes [], uhid_data = ReadHup\<rparr>"
  let ?e = "\<lparr>help_requested = False, open_ok = True, create_write = WriteFull,
      wakeups = [?w1, ?w2],
      destroy_write = WriteFull\<rparr>"
  have c: "create WriteFull init_state = (0, init_state\<lparr>written := [create_event]\<rparr>)"
    by (simp add: create_def uhid_write_def init_state_def)
  have s1: "wakeup_step ?w1 (init_state\<lparr>written := [create_event]\<rparr>) =
      (False, init_state\<lparr>written := [create_event, key_report 0 0x14, key_report 0 0]\<rparr>)"
    by (simp add: wakeup_step_def keyboard_def q_after_create)
  have s2: "wakeup_step ?w2
        (init_state\<lparr>written := [create_event, key_report 0 0x14, key_report 0 0]\<rparr>) =
      (True, init_state\<lparr>written := [create_event, key_report 0 0x14, key_report 0 0]\<rparr>)"
    by (simp add: wakeup_step_def event_def EFAULT_def)
  have waiting: "main (?e\<lparr>wakeups := [?w1]\<rparr>) = None"
    by (simp add: main_def c s1)
  have ended: "main ?e =
      Some (EXIT_SUCCESS, [create_event, key_report 0 0x14, key_report 0 0, UHID_DESTROY])"
    by (simp add: main_def c s1 s2 destroy_def uhid_write_def)
  have "\<exists>log. main ?e = Some (EXIT_SUCCESS, log @ [UHID_DESTROY]) \<and>
      filter is_destroy log = [] \<and> event (uhid_data ?w2) = (- EFAULT, None)"
    using waiting by (intro read_hup_ends_with_one_destroy [of ?e "[?w1]" ?w2 "[]"]) simp_all
  then have "\<exists>log. main ?e = Some (EXIT_SUCCESS, log @ [UHID_DESTROY]) \<and>
      filter is_destroy log = []" by blast
  with waiting ended show ?thesis by simp
qed

end
